theory Spec2Isabelle
  imports Complex_Main "HOL-Library.Log_Nat"
begin

section \<open>Hydration tracker: state, depletion driver and handlers of \<open>HomePage\<close>\<close>

text \<open>
  The component \<open>HomePage\<close> keeps its data in React state variables and two refs, and
  talks to the browser (interval timers, timeouts, the Notification API, an audio element,
  one \<open>fetch\<close>). The embedding makes all of it one record that every handler takes and
  returns.

  \<^item> A JavaScript \<open>number\<close> is a double. The water level is the \<open>real\<close> that the double
    stands for, and every arithmetical operation of the driver rounds its exact result to
    the nearest double (\<open>fl\<close>). The one place of the driver where a double is not a
    real, the division by a zero duration (\<open>100 / 0\<close> is \<open>Infinity\<close>), is written out in
    \<open>decrementWaterLevel\<close>.
  \<^item> \<open>timerDuration\<close> is an \<open>int\<close>: it is only ever \<open>60\<close> or the integer that \<open>parseInt\<close>
    reads from the slider's value.
  \<^item> A callback made by \<open>useCallback\<close> sees the state of the render that made it. The
    callback handed to \<open>setInterval\<close> is therefore stored with the interval as a
    \<open>closure\<close>: the duration and the reminder settings it captured.
  \<^item> An event is atomic: the handler, the render that follows and the effects of that
    render whose dependencies changed.
\<close>

subsection \<open>Data\<close>

record ReminderSettings =
  browser :: bool
  sound :: bool
  visual :: bool

record MessageBox =
  message :: string
  visible :: bool

text \<open>\<open>Notification.permission\<close>.\<close>

datatype permission = Default | Granted | Denied

text \<open>The values \<open>response.json()\<close> can produce, and \<open>undefined\<close> for a missing property.\<close>

datatype jsval =
    Undefined
  | Null
  | Bool bool
  | Num real
  | Str string
  | Arr "jsval list"
  | Obj "(string \<times> jsval) list"

text \<open>What \<open>decrementWaterLevel\<close> captured in the render that created it.\<close>

record closure =
  cDuration :: int
  cReminders :: ReminderSettings

record state =
  currentWaterLevel :: real
  timerDuration :: int
  selectedBodyType :: string
  reminderSettings :: ReminderSettings
  hydrationTip :: jsval
  isLoadingTip :: bool
  messageBox :: MessageBox
  hydrationIntervalRef :: "nat option"
  \<comment> \<open>the browser: live recurring tasks with their callbacks, the last handle handed out,
      pending dismissal timeouts of \<open>showMessage\<close>\<close>
  intervals :: "(nat \<times> closure) list"
  lastHandle :: nat
  dismissTimeouts :: "nat list"
  \<comment> \<open>the Notification API: its permission (\<open>None\<close> in a browser that has no
      \<open>Notification\<close>) and the permission requests that have not settled\<close>
  notificationPermission :: "permission option"
  permissionRequests :: nat
  \<comment> \<open>what the reminder dispatcher did so far\<close>
  triggerReminderCalls :: nat
  notificationsSent :: nat
  soundsPlayed :: nat
  visualFlashes :: nat

subsection \<open>Numbers\<close>

text \<open>
  A finite double is a real \<open>m * 2 ^ q\<close> with integers \<open>\<bar>m\<bar> < 2 ^ 53\<close> and
  \<open>q \<ge> - 1074\<close>. Around \<open>x\<close>, with \<open>2 ^ e \<le> \<bar>x\<bar> < 2 ^ (e + 1)\<close>, neighbouring doubles
  are \<open>2 ^ (e - 52)\<close> apart, and \<open>2 ^ (- 1074)\<close> apart in the subnormal range. The
  operators \<open>+\<close>, \<open>-\<close>, \<open>*\<close> and \<open>/\<close> give the exact result rounded to the nearest
  double, and of two equally near ones the one whose \<open>m\<close> is even; \<open>fl\<close> is that
  rounding. The sign of a zero is not kept (\<open>-0 <= 0\<close> holds as \<open>0 <= 0\<close> does). A
  result beyond the largest double would be \<open>Infinity\<close>; \<open>fl\<close> has no such value, and no
  operation of the driver comes near it: the level stays between \<open>0\<close> and \<open>100\<close> and the
  divisor is \<open>60\<close> times a nonzero integer.
\<close>

definition roundTiesToEven :: "real \<Rightarrow> int" where
  "roundTiesToEven x =
     (let n = \<lfloor>x\<rfloor>; r = x - of_int n
      in if r < 1 / 2 then n else if 1 / 2 < r then n + 1 else if even n then n else n + 1)"

definition ulpExponent :: "real \<Rightarrow> int" where
  "ulpExponent x = max (\<lfloor>log 2 \<bar>x\<bar>\<rfloor> - 52) (- 1074)"

definition fl :: "real \<Rightarrow> real" where
  "fl x =
     (if x = 0 then 0
      else of_int (roundTiesToEven (x / 2 powr of_int (ulpExponent x))) *
           2 powr of_int (ulpExponent x))"

subsection \<open>Browser timers\<close>

text \<open>
  \<open>setInterval\<close> hands out a fresh positive handle (so a handle is truthy);
  \<open>clearInterval\<close> of a handle that is not live does nothing.
\<close>

definition clearInterval :: "nat \<Rightarrow> state \<Rightarrow> state" where
  "clearInterval h s = s\<lparr>intervals := filter (\<lambda>p. fst p \<noteq> h) (intervals s)\<rparr>"

definition setInterval :: "closure \<Rightarrow> state \<Rightarrow> nat \<times> state" where
  "setInterval c s =
     (let h = Suc (lastHandle s)
      in (h, s\<lparr>intervals := intervals s @ [(h, c)], lastHandle := h\<rparr>))"

subsection \<open>Exceptions\<close>

text \<open>
  What the code can throw; \<open>Inl\<close> of a sum is the exception, and \<open>bindE\<close> passes it on.
  \<open>InvalidChild\<close> is the error of React for a child it cannot render.
\<close>

datatype jserror =
  FetchFailed | HttpError nat | JsonSyntaxError | TypeError | ReferenceError | InvalidChild

definition bindE :: "'e + 'a \<Rightarrow> ('a \<Rightarrow> 'e + 'b) \<Rightarrow> 'e + 'b" where
  "bindE m f = (case m of Inl e \<Rightarrow> Inl e | Inr x \<Rightarrow> f x)"

subsection \<open>Messages and reminders\<close>

definition showMessage :: "string \<Rightarrow> nat \<Rightarrow> state \<Rightarrow> state" where
  "showMessage m duration s =
     s\<lparr>messageBox := \<lparr>message = m, visible = True\<rparr>,
       dismissTimeouts := dismissTimeouts s @ [duration]\<rparr>"

text \<open>The timeout set by \<open>showMessage\<close>: the \<open>i\<close>-th pending one fires.\<close>

definition messageTimeout :: "nat \<Rightarrow> state \<Rightarrow> state" where
  "messageTimeout i s =
     s\<lparr>messageBox := \<lparr>message = '''', visible = False\<rparr>,
       dismissTimeouts := take i (dismissTimeouts s) @ drop (Suc i) (dismissTimeouts s)\<rparr>"

definition requestNotificationPermission :: "state \<Rightarrow> state" where
  "requestNotificationPermission s =
     (case notificationPermission s of
        None \<Rightarrow> showMessage ''This browser does not support desktop notifications.'' 3000 s
      | Some p \<Rightarrow>
          if p \<noteq> Granted \<and> p \<noteq> Denied
          then s\<lparr>permissionRequests := Suc (permissionRequests s)\<rparr>
          else s)"

text \<open>
  \<open>sendBrowserNotification\<close> reads \<open>Notification.permission\<close> without asking whether the
  browser has \<open>Notification\<close>: where it has not, the read throws a \<open>ReferenceError\<close>.
  Where it has, the constructor is taken to succeed once the permission is granted.
\<close>

definition sendBrowserNotification :: "state \<Rightarrow> jserror + state" where
  "sendBrowserNotification s =
     (case notificationPermission s of
        None \<Rightarrow> Inl ReferenceError
      | Some p \<Rightarrow>
          Inr (if p = Granted then s\<lparr>notificationsSent := Suc (notificationsSent s)\<rparr> else s))"

text \<open>
  The audio element is created on mount and the container \<open>body-svg-container\<close> is part
  of the component's own markup, so both are there when a reminder fires; an error of
  \<open>play()\<close> is caught and logged.
\<close>

definition playReminderSound :: "state \<Rightarrow> state" where
  "playReminderSound s = s\<lparr>soundsPlayed := Suc (soundsPlayed s)\<rparr>"

definition applyVisualFlash :: "state \<Rightarrow> state" where
  "applyVisualFlash s = s\<lparr>visualFlashes := Suc (visualFlashes s)\<rparr>"

definition triggerReminder :: "ReminderSettings \<Rightarrow> state \<Rightarrow> jserror + state" where
  "triggerReminder rs s =
     (let s0 = s\<lparr>triggerReminderCalls := Suc (triggerReminderCalls s)\<rparr>
      in bindE (if browser rs then sendBrowserNotification s0 else Inr s0) (\<lambda>s1.
           let s2 = (if sound rs then playReminderSound s1 else s1)
           in Inr (if visual rs then applyVisualFlash s2 else s2)))"

subsection \<open>Presentation\<close>

text \<open>
  The style \<open>updateWaterLevelVisual\<close> gives the element \<open>water-fill\<close>: its height in per
  cent and its background colour. (The status text it also sets is left out.)
\<close>

record waterFillStyle =
  height :: real
  backgroundColor :: string

definition updateWaterLevelVisual :: "real \<Rightarrow> waterFillStyle" where
  "updateWaterLevelVisual level =
     \<lparr>height = level,
      backgroundColor =
        (if level < 30 then ''#ef4444''
         else if level < 60 then ''#f97316''
         else ''#60a5fa'')\<rparr>"

text \<open>The colour of the water indicator's material in \<open>Model\<close> of \<open>HumanModel3D.tsx\<close>.\<close>

definition Model_color :: "real \<Rightarrow> string" where
  "Model_color waterLevel =
     (if waterLevel < 30 then ''#ef4444'' else if waterLevel < 60 then ''#f97316'' else ''#60a5fa'')"

subsection \<open>The depletion driver\<close>

text \<open>
  The updater of \<open>decrementWaterLevel\<close> on reaching zero: the handle in the ref is
  cleared and the ref set to \<open>null\<close>, reminders fire, the message shows, and \<open>0\<close> is the
  new level. When the reminders throw, the exception leaves the updater and what follows
  does not run.
\<close>

definition waterEmpty :: "closure \<Rightarrow> state \<Rightarrow> jserror + state" where
  "waterEmpty c s =
     (let s1 = (case hydrationIntervalRef s of
                  Some h \<Rightarrow> (clearInterval h s)\<lparr>hydrationIntervalRef := None\<rparr>
                | None \<Rightarrow> s)
      in bindE (triggerReminder (cReminders c) s1) (\<lambda>s2.
           let s3 = showMessage ''Time to drink water!'' 5000 s2
           in Inr (s3\<lparr>currentWaterLevel := 0\<rparr>)))"

text \<open>
  One call of the interval's callback: the product, the quotient and the difference are
  each rounded. With a duration of \<open>0\<close> JavaScript computes \<open>100 / 0 = Infinity\<close> and
  \<open>prevLevel - Infinity = -Infinity\<close>, which is \<open>\<le> 0\<close>.
\<close>

definition decrementWaterLevel :: "closure \<Rightarrow> state \<Rightarrow> jserror + state" where
  "decrementWaterLevel c s =
     (if cDuration c = 0 then waterEmpty c s
      else
        let waterDecreasePerSecond = fl (100 / fl (real_of_int (cDuration c) * 60));
            newLevel = fl (currentWaterLevel s - waterDecreasePerSecond)
        in if newLevel \<le> 0 then waterEmpty c s
           else Inr (s\<lparr>currentWaterLevel := newLevel\<rparr>))"

text \<open>The callbacks of the current render capture the current state.\<close>

definition rendered :: "state \<Rightarrow> closure" where
  "rendered s = \<lparr>cDuration = timerDuration s, cReminders = reminderSettings s\<rparr>"

definition startHydrationTimer :: "closure \<Rightarrow> state \<Rightarrow> state" where
  "startHydrationTimer c s =
     (let s1 = (case hydrationIntervalRef s of
                  Some h \<Rightarrow> clearInterval h s
                | None \<Rightarrow> s);
          (h, s2) = setInterval c s1
      in s2\<lparr>hydrationIntervalRef := Some h\<rparr>)"

definition resetHydration :: "closure \<Rightarrow> state \<Rightarrow> state" where
  "resetHydration c s =
     showMessage ''Hydration reset! Drink up!'' 2000
       (startHydrationTimer c (s\<lparr>currentWaterLevel := 100\<rparr>))"

text \<open>
  The effect on \<open>[timerDuration, startHydrationTimer]\<close>, run again after a render that
  changed the duration or the reminder settings (a new settings object makes a new
  \<open>triggerReminder\<close>, \<open>decrementWaterLevel\<close> and \<open>startHydrationTimer\<close>): the cleanup of
  the previous run, which clears the interval and leaves the ref, then
  \<open>startHydrationTimer\<close> of the new render.
\<close>

definition timerEffectCleanup :: "state \<Rightarrow> state" where
  "timerEffectCleanup s =
     (case hydrationIntervalRef s of Some h \<Rightarrow> clearInterval h s | None \<Rightarrow> s)"

definition timerEffect :: "state \<Rightarrow> state" where
  "timerEffect s = startHydrationTimer (rendered s) (timerEffectCleanup s)"

subsection \<open>Handlers\<close>

definition handleTimerChange :: "int \<Rightarrow> state \<Rightarrow> state" where
  \<comment> \<open>the argument is \<open>parseInt(event.target.value)\<close>\<close>
  "handleTimerChange v s = s\<lparr>timerDuration := v\<rparr>"

definition handleBodyTypeChange :: "string \<Rightarrow> state \<Rightarrow> state" where
  "handleBodyTypeChange bodyType s = s\<lparr>selectedBodyType := bodyType\<rparr>"

text \<open>The three checkboxes the handler is attached to, by their element ids.\<close>

datatype reminderId = ReminderBrowser | ReminderSound | ReminderVisual

definition handleReminderChange :: "reminderId \<Rightarrow> bool \<Rightarrow> state \<Rightarrow> state" where
  "handleReminderChange ident checked s =
     (let prev = reminderSettings s;
          newSettings = (case ident of
                           ReminderBrowser \<Rightarrow> prev\<lparr>browser := checked\<rparr>
                         | ReminderSound \<Rightarrow> prev\<lparr>sound := checked\<rparr>
                         | ReminderVisual \<Rightarrow> prev\<lparr>visual := checked\<rparr>);
          s1 = (if ident = ReminderBrowser \<and> checked
                then requestNotificationPermission s else s)
      in s1\<lparr>reminderSettings := newSettings\<rparr>)"

text \<open>
  The \<open>then\<close> callback of \<open>Notification.requestPermission()\<close>; the browser has set
  \<open>Notification.permission\<close> to the result.
\<close>

definition permissionSettled :: "permission \<Rightarrow> state \<Rightarrow> state" where
  "permissionSettled p s =
     (let s1 = s\<lparr>notificationPermission := Some p,
                 permissionRequests := permissionRequests s - 1\<rparr>
      in if p = Granted then showMessage ''Browser notifications enabled!'' 3000 s1
         else
           (let s2 = showMessage
                  ''Browser notifications denied. Please enable them in your browser settings.''
                  3000 s1
            in s2\<lparr>reminderSettings := (reminderSettings s2)\<lparr>browser := False\<rparr>\<rparr>))"

text \<open>
  The \<open>onClick\<close> of the button "Reset All". \<open>resetHydration\<close> is the callback of the
  render the click happened in, so the interval it starts still has that render's
  duration and settings; the render after the click replaces it (\<open>timerEffect\<close>).
\<close>

definition resetAll :: "closure \<Rightarrow> state \<Rightarrow> state" where
  "resetAll c s =
     (let s1 = s\<lparr>timerDuration := 60,
                 reminderSettings := \<lparr>browser = False, sound = False, visual = False\<rparr>,
                 selectedBodyType := ''generic'',
                 hydrationTip := Str ''''\<rparr>;
          s2 = resetHydration c s1
      in showMessage ''All settings reset!'' 2000 s2)"

subsection \<open>The tip fetcher\<close>

text \<open>
  Reading a property, for the names the fetcher reads (\<open>candidates\<close>, \<open>content\<close>,
  \<open>parts\<close>, \<open>text\<close>, \<open>length\<close> and the index \<open>0\<close>): on \<open>null\<close> and \<open>undefined\<close> it
  throws, on a primitive it is \<open>undefined\<close> except for a string's length and first
  character, and in an object of \<open>JSON.parse\<close> the last of duplicate keys counts.
\<close>

fun getProp :: "jsval \<Rightarrow> string \<Rightarrow> jserror + jsval" where
  "getProp Undefined k = Inl TypeError"
| "getProp Null k = Inl TypeError"
| "getProp (Bool b) k = Inr Undefined"
| "getProp (Num n) k = Inr Undefined"
| "getProp (Str s) k =
     (if k = ''length'' then Inr (Num (real (length s)))
      else if k = ''0'' then (case s of [] \<Rightarrow> Inr Undefined | ch # _ \<Rightarrow> Inr (Str [ch]))
      else Inr Undefined)"
| "getProp (Arr xs) k =
     (if k = ''length'' then Inr (Num (real (length xs)))
      else if k = ''0'' then (case xs of [] \<Rightarrow> Inr Undefined | x # _ \<Rightarrow> Inr x)
      else Inr Undefined)"
| "getProp (Obj kvs) k =
     (case map_of (rev kvs) k of None \<Rightarrow> Inr Undefined | Some v \<Rightarrow> Inr v)"

fun truthy :: "jsval \<Rightarrow> bool" where
  "truthy Undefined = False"
| "truthy Null = False"
| "truthy (Bool b) = b"
| "truthy (Num n) = (n \<noteq> 0)"
| "truthy (Str s) = (s \<noteq> [])"
| "truthy (Arr xs) = True"
| "truthy (Obj kvs) = True"

text \<open>
  \<open>v > 0\<close>. A string, an array or an object operand is first converted to a number by
  the engine (\<open>ToPrimitive\<close>, \<open>ToNumber\<close>), which can throw; the comparison after that
  conversion is the parameter \<open>conv\<close>. It is only asked when an object of the response
  has a member \<open>length\<close> that is not a number.
\<close>

fun gt0 :: "(jsval \<Rightarrow> jserror + bool) \<Rightarrow> jsval \<Rightarrow> jserror + bool" where
  "gt0 conv Undefined = Inr False"
| "gt0 conv Null = Inr False"
| "gt0 conv (Bool b) = Inr b"
| "gt0 conv (Num n) = Inr (0 < n)"
| "gt0 conv (Str s) = conv (Str s)"
| "gt0 conv (Arr xs) = conv (Arr xs)"
| "gt0 conv (Obj kvs) = conv (Obj kvs)"

text \<open>
  The condition of the \<open>if\<close> on the parsed body, evaluated left to right with the
  short cut of \<open>&&\<close>; \<open>Inl\<close> when an access throws.
\<close>

definition tipGuard :: "(jsval \<Rightarrow> jserror + bool) \<Rightarrow> jsval \<Rightarrow> jserror + bool" where
  "tipGuard conv result =
     bindE (getProp result ''candidates'') (\<lambda>cands.
       if \<not> truthy cands then Inr False
       else bindE (getProp cands ''length'') (\<lambda>n.
         bindE (gt0 conv n) (\<lambda>some.
           if \<not> some then Inr False
           else bindE (getProp cands ''0'') (\<lambda>c0.
             bindE (getProp c0 ''content'') (\<lambda>content.
               if \<not> truthy content then Inr False
               else bindE (getProp content ''parts'') (\<lambda>parts.
                 if \<not> truthy parts then Inr False
                 else bindE (getProp parts ''length'') (\<lambda>m. gt0 conv m)))))))"

text \<open>\<open>result.candidates[0].content.parts[0].text\<close>.\<close>

definition tipText :: "jsval \<Rightarrow> jserror + jsval" where
  "tipText result =
     bindE (getProp result ''candidates'') (\<lambda>cands.
       bindE (getProp cands ''0'') (\<lambda>c0.
         bindE (getProp c0 ''content'') (\<lambda>content.
           bindE (getProp content ''parts'') (\<lambda>parts.
             bindE (getProp parts ''0'') (\<lambda>p0. getProp p0 ''text'')))))"

text \<open>
  What \<open>fetch\<close> comes back with: a rejection, or a response with its \<open>ok\<close> flag, its
  status and the value of \<open>response.json()\<close> (\<open>None\<close> when the body is not JSON and the
  promise rejects).
\<close>

datatype response = Response (ok: bool) (status: nat) (json: "jsval option")

datatype fetched = Rejected | Resolved response

definition getHydrationTipStart :: "state \<Rightarrow> state" where
  "getHydrationTipStart s = s\<lparr>isLoadingTip := True, hydrationTip := Str ''''\<rparr>"

text \<open>The \<open>try\<close> block after the \<open>fetch\<close> has settled: \<open>Inl\<close> is what it throws.\<close>

definition tipTry :: "(jsval \<Rightarrow> jserror + bool) \<Rightarrow> fetched \<Rightarrow> state \<Rightarrow> jserror + state" where
  "tipTry conv f s =
     (case f of
        Rejected \<Rightarrow> Inl FetchFailed
      | Resolved r \<Rightarrow>
          if \<not> ok r then Inl (HttpError (status r))
          else (case json r of
                  None \<Rightarrow> Inl JsonSyntaxError
                | Some result \<Rightarrow>
                    bindE (tipGuard conv result) (\<lambda>g.
                      if g then bindE (tipText result) (\<lambda>text. Inr (s\<lparr>hydrationTip := text\<rparr>))
                      else Inr (s\<lparr>hydrationTip := Str ''Could not fetch a tip. Please try again.''\<rparr>))))"

text \<open>The \<open>try\<close>, the \<open>catch\<close> and the \<open>finally\<close> of \<open>getHydrationTip\<close>.\<close>

definition getHydrationTipSettled :: "(jsval \<Rightarrow> jserror + bool) \<Rightarrow> fetched \<Rightarrow> state \<Rightarrow> state" where
  "getHydrationTipSettled conv f s =
     (let s1 = (case tipTry conv f s of
                  Inr s' \<Rightarrow> s'
                | Inl e \<Rightarrow>
                    showMessage ''Failed to get a tip. Please check your connection.'' 3000
                      (s\<lparr>hydrationTip := Str ''Failed to get a tip. Network error or API issue.''\<rparr>))
      in s1\<lparr>isLoadingTip := False\<rparr>)"

text \<open>
  The tip is rendered as \<open>{hydrationTip && (... {hydrationTip} ...)}\<close>. React renders a
  string or a number, renders nothing for \<open>null\<close>, \<open>undefined\<close> and a boolean, takes the
  elements of an array as children, and throws on any other object.
\<close>

fun validChild :: "jsval \<Rightarrow> bool" where
  "validChild (Obj kvs) = False"
| "validChild (Arr xs) = (\<forall>x \<in> set xs. validChild x)"
| "validChild v = True"

subsection \<open>The component as a transition system\<close>

text \<open>
  The state of the first render (the \<open>useState\<close> defaults, both refs empty) in a browser
  with the given Notification permission, and the state after mounting, when the timer
  effect has run once.
\<close>

definition initialState :: "permission option \<Rightarrow> state" where
  "initialState perm =
     \<lparr>currentWaterLevel = 100, timerDuration = 60, selectedBodyType = ''generic'',
      reminderSettings = \<lparr>browser = False, sound = False, visual = False\<rparr>,
      hydrationTip = Str '''', isLoadingTip = False,
      messageBox = \<lparr>message = '''', visible = False\<rparr>,
      hydrationIntervalRef = None, intervals = [], lastHandle = 0, dismissTimeouts = [],
      notificationPermission = perm, permissionRequests = 0,
      triggerReminderCalls = 0, notificationsSent = 0, soundsPlayed = 0, visualFlashes = 0\<rparr>"

definition mounted :: "permission option \<Rightarrow> state" where
  "mounted perm = startHydrationTimer (rendered (initialState perm)) (initialState perm)"

datatype event =
    Tick nat
  | TimerChange int
  | BodyTypeChange string
  | ReminderChange reminderId bool
  | DrinkNow
  | ResetAll
  | GetTip
  | TipSettled fetched
  | PermissionSettled permission
  | MessageTimeout nat

text \<open>The values the slider can deliver: \<open>min="30" max="240" step="15"\<close>.\<close>

definition sliderValue :: "int \<Rightarrow> bool" where
  "sliderValue v = (30 \<le> v \<and> v \<le> 240 \<and> (v - 30) mod 15 = 0)"

text \<open>
  One event. \<open>None\<close> when it cannot happen in the state: an interval that is not live
  does not fire, the slider delivers its own values only and fires on a change, the tip
  button is disabled while a tip is loading, a promise or timeout settles only when it is
  pending. \<open>Inl\<close> when the callback or the render after it throws: the exception reaches
  React, which takes the component down, so there is no next state.
\<close>

definition step :: "(jsval \<Rightarrow> jserror + bool) \<Rightarrow> event \<Rightarrow> state \<Rightarrow> (jserror + state) option" where
  "step conv e s =
     (case e of
        Tick h \<Rightarrow>
          (case map_of (intervals s) h of
             None \<Rightarrow> None
           | Some c \<Rightarrow> Some (decrementWaterLevel c s))
      | TimerChange v \<Rightarrow>
          if sliderValue v \<and> v \<noteq> timerDuration s
          then Some (Inr (timerEffect (handleTimerChange v s))) else None
      | BodyTypeChange b \<Rightarrow>
          if b = ''generic'' \<or> b = ''slim'' \<or> b = ''muscular''
          then Some (Inr (handleBodyTypeChange b s)) else None
      | ReminderChange ident checked \<Rightarrow>
          Some (Inr (timerEffect (handleReminderChange ident checked s)))
      | DrinkNow \<Rightarrow> Some (Inr (resetHydration (rendered s) s))
      | ResetAll \<Rightarrow> Some (Inr (timerEffect (resetAll (rendered s) s)))
      | GetTip \<Rightarrow> if isLoadingTip s then None else Some (Inr (getHydrationTipStart s))
      | TipSettled f \<Rightarrow>
          if isLoadingTip s
          then (let t = getHydrationTipSettled conv f s
                in Some (if validChild (hydrationTip t) then Inr t else Inl InvalidChild))
          else None
      | PermissionSettled p \<Rightarrow>
          if permissionRequests s = 0 then None
          else if p = Granted then Some (Inr (permissionSettled p s))
          else Some (Inr (timerEffect (permissionSettled p s)))
      | MessageTimeout i \<Rightarrow>
          if i < length (dismissTimeouts s) then Some (Inr (messageTimeout i s)) else None)"

text \<open>A sequence of events; after an exception nothing more can happen.\<close>

fun run :: "(jsval \<Rightarrow> jserror + bool) \<Rightarrow> event list \<Rightarrow> state \<Rightarrow> (jserror + state) option" where
  "run conv [] s = Some (Inr s)"
| "run conv (e # es) s =
     (case step conv e s of
        None \<Rightarrow> None
      | Some (Inl err) \<Rightarrow> (if es = [] then Some (Inl err) else None)
      | Some (Inr s') \<Rightarrow> run conv es s')"

text \<open>
  What holds between events: the level is a percentage, the duration is one of the
  slider's values, and the interval in the ref, if any, is the only live one and runs
  the callback of the current render.
\<close>

definition timerInv :: "state \<Rightarrow> bool" where
  "timerInv s =
     (0 \<le> currentWaterLevel s \<and> currentWaterLevel s \<le> 100 \<and>
      sliderValue (timerDuration s) \<and>
      (case hydrationIntervalRef s of
         None \<Rightarrow> intervals s = []
       | Some h \<Rightarrow> intervals s = [(h, rendered s)] \<and> h \<le> lastHandle s))"

text \<open>
  The events in which \<open>startHydrationTimer\<close> runs: the two reset buttons call it, and the
  timer effect calls it after a change of the duration and after every new
  reminder-settings object (a checkbox, a refused permission), because the effect depends
  on \<open>startHydrationTimer\<close>, which is made anew from \<open>decrementWaterLevel\<close>, which is made
  anew from \<open>triggerReminder\<close>, which depends on \<open>reminderSettings\<close>.
\<close>

definition startsTimer :: "event \<Rightarrow> bool" where
  "startsTimer e =
     (case e of
        TimerChange v \<Rightarrow> True
      | ReminderChange ident checked \<Rightarrow> True
      | DrinkNow \<Rightarrow> True
      | ResetAll \<Rightarrow> True
      | PermissionSettled p \<Rightarrow> p \<noteq> Granted
      | _ \<Rightarrow> False)"

subsection \<open>Levels along a run of ticks\<close>

text \<open>
  The level after \<open>k\<close> calls of the updater of \<open>decrementWaterLevel\<close> that take the branch
  \<open>return newLevel\<close>, for a decrement \<open>d\<close> and from the level \<open>x\<close>.
\<close>

definition levelAfter :: "real \<Rightarrow> nat \<Rightarrow> real \<Rightarrow> real" where
  "levelAfter d k x = ((\<lambda>y. fl (y - d)) ^^ k) x"

text \<open>
  Rounding to \<open>53\<close> significant bits on integers: \<open>fl\<close> of \<open>n * 2 ^ k\<close> is
  \<open>round53 n * 2 ^ k\<close>.
  With it, \<open>ticksScaled q k n\<close> computes, in units of one power of two, the level after
  \<open>k\<close> ticks which all leave a positive level (and is \<open>None\<close> when one of them does not).
\<close>

definition round53 :: "int \<Rightarrow> int" where
  "round53 n =
     (let j = bitlen \<bar>n\<bar> - 53
      in if j \<le> 0 then n
         else let p = 2 ^ nat j; q = n div p; r = n mod p
              in (if 2 * r < p then q else if p < 2 * r then q + 1
                  else if even q then q else q + 1) * p)"

fun ticksScaled :: "int \<Rightarrow> nat \<Rightarrow> int \<Rightarrow> int option" where
  "ticksScaled q 0 n = Some n"
| "ticksScaled q (Suc k) n =
     (let m = round53 (n - q) in if m \<le> 0 then None else ticksScaled q k m)"

section \<open>Properties\<close>

subsection \<open>Rounding to a double\<close>

lemma roundTiesToEven_of_int: "roundTiesToEven (of_int n) = n"
  by (simp add: roundTiesToEven_def)

lemma roundTiesToEven_error: "\<bar>of_int (roundTiesToEven x) - x\<bar> \<le> 1 / 2"
proof -
  have "of_int \<lfloor>x\<rfloor> \<le> x" "x < of_int \<lfloor>x\<rfloor> + 1" by linarith+
  then show ?thesis by (auto simp: roundTiesToEven_def Let_def)
qed

lemma roundTiesToEven_le:
  assumes "x \<le> of_int m"
  shows "roundTiesToEven x \<le> m"
proof (cases "x = of_int m")
  case True
  then show ?thesis by (simp add: roundTiesToEven_of_int)
next
  case False
  with assms have "x < of_int m" by simp
  then have "\<lfloor>x\<rfloor> < m" by (simp add: floor_less_iff)
  then show ?thesis by (auto simp: roundTiesToEven_def Let_def)
qed

lemma roundTiesToEven_ge:
  assumes "of_int m \<le> x"
  shows "m \<le> roundTiesToEven x"
proof -
  from assms have "m \<le> \<lfloor>x\<rfloor>" by (simp add: le_floor_iff)
  then show ?thesis by (auto simp: roundTiesToEven_def Let_def)
qed

lemma ulpExponent_ge: "- 1074 \<le> ulpExponent x"
  by (simp add: ulpExponent_def)

lemma ulpExponent_le:
  assumes "x \<noteq> 0" "\<bar>x\<bar> < 2 powr of_int b" "- 1074 \<le> b - 53"
  shows "ulpExponent x \<le> b - 53"
proof -
  have "log 2 \<bar>x\<bar> < of_int b"
    using assms(1,2) by (simp add: log_less_iff)
  then have "\<lfloor>log 2 \<bar>x\<bar>\<rfloor> < b" by (simp add: floor_less_iff)
  with assms(3) show ?thesis by (simp add: ulpExponent_def)
qed

lemma ulpExponent_binade:
  assumes "2 powr of_int e \<le> \<bar>x\<bar>" "\<bar>x\<bar> < 2 powr of_int (e + 1)" "- 1022 \<le> e"
  shows "ulpExponent x = e - 52"
proof -
  have pos: "0 < \<bar>x\<bar>" using assms(1) powr_gt_zero [of 2 "of_int e"] by linarith
  have "of_int e \<le> log 2 \<bar>x\<bar>" using assms(1) pos by (simp add: le_log_iff)
  moreover have "log 2 \<bar>x\<bar> < of_int (e + 1)" using assms(2) pos by (simp add: log_less_iff)
  ultimately have "\<lfloor>log 2 \<bar>x\<bar>\<rfloor> = e" by linarith
  with assms(3) show ?thesis by (simp add: ulpExponent_def)
qed

lemma fl_binade:
  assumes "2 powr of_int e \<le> \<bar>x\<bar>" "\<bar>x\<bar> < 2 powr of_int (e + 1)" "- 1022 \<le> e"
  shows "fl x = of_int (roundTiesToEven (x / 2 powr of_int (e - 52))) * 2 powr of_int (e - 52)"
proof -
  have "x \<noteq> 0" using assms(1) powr_gt_zero [of 2 "of_int e"] by auto
  then show ?thesis by (simp only: fl_def ulpExponent_binade [OF assms] if_False)
qed

lemma fl_error:
  assumes "\<bar>x\<bar> < 2 powr of_int b" "- 1021 \<le> b"
  shows "\<bar>fl x - x\<bar> \<le> 2 powr of_int (b - 54)"
proof (cases "x = 0")
  case True
  then show ?thesis by (simp add: fl_def)
next
  case False
  define q where "q = ulpExponent x"
  define u :: real where "u = 2 powr of_int q"
  have u: "0 < u" by (simp add: u_def)
  have "q \<le> b - 53" unfolding q_def using False assms by (intro ulpExponent_le) simp_all
  then have ub: "u \<le> 2 powr of_int (b - 53)" by (simp add: u_def)
  have "fl x - x = (of_int (roundTiesToEven (x / u)) - x / u) * u"
    using False u by (simp add: fl_def q_def u_def field_simps)
  then have "\<bar>fl x - x\<bar> = \<bar>of_int (roundTiesToEven (x / u)) - x / u\<bar> * u"
    using u by (simp add: abs_mult)
  also have "\<dots> \<le> 1 / 2 * u"
    using roundTiesToEven_error [of "x / u"] u by (intro mult_right_mono) simp_all
  also have "\<dots> \<le> 1 / 2 * 2 powr of_int (b - 53)" using ub by simp
  also have "\<dots> = 2 powr of_int (b - 54)"
  proof -
    have "of_int (b - 53) = of_int (b - 54) + (1::real)" by simp
    then have "2 powr of_int (b - 53) = 2 powr of_int (b - 54) * (2::real)"
      by (simp only: powr_add) simp
    then show ?thesis by simp
  qed
  finally show ?thesis .
qed

lemma grid_multiple:
  assumes "q \<le> k"
  shows "of_int m * 2 powr of_int k / 2 powr of_int q = (of_int (m * 2 ^ nat (k - q)) :: real)"
proof -
  have "(2::real) powr of_int k = 2 powr of_int q * 2 powr of_int (k - q)"
    by (simp add: powr_add [symmetric])
  moreover have "(2::real) powr of_int (k - q) = 2 ^ nat (k - q)"
    using assms by (simp add: powr_realpow [symmetric])
  ultimately show ?thesis by simp
qed

lemma fl_le:
  assumes "x \<le> of_int m * 2 powr of_int k" "\<bar>x\<bar> < 2 powr of_int (k + 53)" "- 1074 \<le> k"
  shows "fl x \<le> of_int m * 2 powr of_int k"
proof (cases "x = 0")
  case True
  with assms(1) show ?thesis by (simp add: fl_def)
next
  case False
  define q where "q = ulpExponent x"
  define u :: real where "u = 2 powr of_int q"
  have u: "0 < u" by (simp add: u_def)
  have qk: "q \<le> k" unfolding q_def using False assms(2,3) ulpExponent_le [of x "k + 53"] by simp
  define M where "M = m * 2 ^ nat (k - q)"
  have M: "of_int m * 2 powr of_int k = of_int M * u"
    using grid_multiple [OF qk, of m] u by (simp add: M_def u_def field_simps)
  have "x / u \<le> of_int M" using assms(1) u by (simp add: M field_simps)
  then have "roundTiesToEven (x / u) \<le> M" by (rule roundTiesToEven_le)
  then have "of_int (roundTiesToEven (x / u)) * u \<le> of_int M * u"
    using u by simp
  then show ?thesis using False by (simp add: fl_def M q_def u_def)
qed

lemma fl_ge:
  assumes "of_int m * 2 powr of_int k \<le> x" "\<bar>x\<bar> < 2 powr of_int (k + 53)" "- 1074 \<le> k"
  shows "of_int m * 2 powr of_int k \<le> fl x"
proof (cases "x = 0")
  case True
  with assms(1) show ?thesis by (simp add: fl_def)
next
  case False
  define q where "q = ulpExponent x"
  define u :: real where "u = 2 powr of_int q"
  have u: "0 < u" by (simp add: u_def)
  have qk: "q \<le> k" unfolding q_def using False assms(2,3) ulpExponent_le [of x "k + 53"] by simp
  define M where "M = m * 2 ^ nat (k - q)"
  have M: "of_int m * 2 powr of_int k = of_int M * u"
    using grid_multiple [OF qk, of m] u by (simp add: M_def u_def field_simps)
  have "of_int M \<le> x / u" using assms(1) u by (simp add: M field_simps)
  then have "M \<le> roundTiesToEven (x / u)" by (rule roundTiesToEven_ge)
  then have "of_int M * u \<le> of_int (roundTiesToEven (x / u)) * u"
    using u by simp
  then show ?thesis using False by (simp add: fl_def M q_def u_def)
qed

lemma fl_exact:
  assumes "\<bar>n\<bar> < 2 ^ 53" "- 1074 \<le> k"
  shows "fl (of_int n * 2 powr of_int k) = of_int n * 2 powr of_int k"
proof -
  have "\<bar>of_int n * 2 powr of_int k\<bar> = \<bar>real_of_int n\<bar> * 2 powr of_int k"
    by (simp add: abs_mult)
  also have "\<dots> < 2 ^ 53 * 2 powr of_int k"
  proof -
    have "real_of_int \<bar>n\<bar> < real_of_int (2 ^ 53)"
      using assms(1) by (simp only: of_int_less_iff)
    then have "\<bar>real_of_int n\<bar> < 2 ^ 53" by simp
    then show ?thesis by (intro mult_strict_right_mono) simp_all
  qed
  also have "\<dots> = 2 powr of_int (k + 53)"
    by (simp add: powr_add powr_realpow [symmetric])
  finally have b: "\<bar>real_of_int n * 2 powr of_int k\<bar> < 2 powr of_int (k + 53)" .
  show ?thesis
    using fl_le [OF order_refl b assms(2)] fl_ge [OF order_refl b assms(2)] by (rule antisym)
qed


lemma roundTiesToEven_divide:
  assumes "0 < p"
  shows "roundTiesToEven (of_int n / of_int p) =
     (if 2 * (n mod p) < p then n div p else if p < 2 * (n mod p) then n div p + 1
      else if even (n div p) then n div p else n div p + 1)"
proof -
  have fl: "\<lfloor>real_of_int n / of_int p\<rfloor> = n div p"
    by (simp add: floor_divide_of_int_eq)
  have "real_of_int n = of_int (n div p) * of_int p + of_int (n mod p)"
    by (metis div_mult_mod_eq of_int_add of_int_mult)
  then have fr: "real_of_int n / of_int p - of_int (n div p) = of_int (n mod p) / of_int p"
    using assms by (simp add: field_simps)
  have lt: "of_int (n mod p) / real_of_int p < 1 / 2 \<longleftrightarrow> 2 * (n mod p) < p"
  proof -
    have "of_int (n mod p) / real_of_int p < 1 / 2 \<longleftrightarrow> real_of_int (2 * (n mod p)) < of_int p"
      using assms by (simp add: field_simps)
    then show ?thesis by (simp only: of_int_less_iff)
  qed
  have gt: "1 / 2 < of_int (n mod p) / real_of_int p \<longleftrightarrow> p < 2 * (n mod p)"
  proof -
    have "1 / 2 < of_int (n mod p) / real_of_int p \<longleftrightarrow> real_of_int p < of_int (2 * (n mod p))"
      using assms by (simp add: field_simps)
    then show ?thesis by (simp only: of_int_less_iff)
  qed
  show ?thesis
    unfolding roundTiesToEven_def Let_def fl fr lt gt by (rule refl)
qed

lemma fl_round53:
  assumes "- 1074 \<le> k"
  shows "fl (of_int n * 2 powr of_int k) = of_int (round53 n) * 2 powr of_int k"
proof (cases "bitlen \<bar>n\<bar> - 53 \<le> 0")
  case True
  have "\<bar>n\<bar> < 2 ^ 53"
  proof (cases "n = 0")
    case False
    then have "\<bar>n\<bar> < 2 ^ nat (bitlen \<bar>n\<bar>)" using bitlen_bounds [of "\<bar>n\<bar>"] by simp
    also have "\<dots> \<le> 2 ^ 53" using True by (intro power_increasing) simp_all
    finally show ?thesis .
  qed simp
  then have "fl (of_int n * 2 powr of_int k) = of_int n * 2 powr of_int k"
    using assms by (rule fl_exact)
  with True show ?thesis by (simp add: round53_def)
next
  case False
  define b where "b = bitlen \<bar>n\<bar>"
  define j where "j = b - 53"
  define p :: int where "p = 2 ^ nat j"
  have j: "0 < j" using False by (simp add: j_def b_def)
  have p: "0 < p" by (simp add: p_def)
  have n0: "0 < \<bar>n\<bar>" using False by (cases "n = 0") simp_all
  have bb: "2 ^ nat (b - 1) \<le> \<bar>n\<bar>" "\<bar>n\<bar> < 2 ^ nat b"
    using bitlen_bounds [OF n0] by (simp_all add: b_def)
  have b1: "1 \<le> b" using j by (simp add: j_def)
  let ?x = "real_of_int n * 2 powr of_int k"
  have ax: "\<bar>?x\<bar> = real_of_int \<bar>n\<bar> * 2 powr of_int k" by (simp add: abs_mult)
  have lo: "2 powr of_int (b - 1 + k) \<le> \<bar>?x\<bar>"
  proof -
    have "real_of_int (2 ^ nat (b - 1)) \<le> real_of_int \<bar>n\<bar>"
      using bb(1) by (simp only: of_int_le_iff)
    then have "2 powr of_int (b - 1) \<le> real_of_int \<bar>n\<bar>"
      using b1 by (simp add: powr_realpow [symmetric])
    then have "2 powr of_int (b - 1) * 2 powr of_int k \<le> real_of_int \<bar>n\<bar> * 2 powr of_int k"
      by (intro mult_right_mono) simp_all
    then show ?thesis by (simp only: ax powr_add [symmetric] of_int_add)
  qed
  have hi: "\<bar>?x\<bar> < 2 powr of_int (b - 1 + k + 1)"
  proof -
    have "real_of_int \<bar>n\<bar> < real_of_int (2 ^ nat b)"
      using bb(2) by (simp only: of_int_less_iff)
    then have "real_of_int \<bar>n\<bar> < 2 powr of_int b"
      using b1 by (simp add: powr_realpow [symmetric])
    then have "real_of_int \<bar>n\<bar> * 2 powr of_int k < 2 powr of_int b * 2 powr of_int k"
      by (intro mult_strict_right_mono) simp_all
    moreover have "of_int (b - 1 + k + 1) = real_of_int b + of_int k" by simp
    ultimately show ?thesis by (simp only: ax powr_add [symmetric])
  qed
  have e: "- 1022 \<le> b - 1 + k" using j assms by (simp add: j_def)
  have u: "b - 1 + k - 52 = j + k" by (simp add: j_def)
  have scale: "(2::real) powr of_int (j + k) = of_int p * 2 powr of_int k"
    using j by (simp add: p_def powr_add powr_realpow [symmetric])
  have "?x / 2 powr of_int (j + k) = of_int n / of_int p"
    unfolding scale by simp
  then have "fl ?x = of_int (roundTiesToEven (of_int n / of_int p)) * (of_int p * 2 powr of_int k)"
    using fl_binade [OF lo hi e] by (simp only: u scale)
  also have "\<dots> = of_int (roundTiesToEven (of_int n / of_int p) * p) * 2 powr of_int k"
    by simp
  also have "roundTiesToEven (of_int n / of_int p) * p = round53 n"
  proof -
    have "round53 n =
        (if 2 * (n mod p) < p then n div p else if p < 2 * (n mod p) then n div p + 1
         else if even (n div p) then n div p else n div p + 1) * p"
      using False by (simp add: round53_def Let_def p_def j_def b_def)
    then show ?thesis by (simp only: roundTiesToEven_divide [OF p])
  qed
  finally show ?thesis .
qed

text \<open>The product and the decrement for a duration the slider can deliver.\<close>

lemma fl_of_int:
  assumes "\<bar>n\<bar> < 2 ^ 53"
  shows "fl (of_int n) = of_int n"
  using fl_exact [OF assms, of 0] by simp

lemma decrement_bounds:
  assumes "30 \<le> D" "D \<le> 240"
  shows "fl (real_of_int D * 60) = of_int (D * 60)"
    and "1 / 256 \<le> fl (100 / fl (real_of_int D * 60))"
    and "fl (100 / fl (real_of_int D * 60)) \<le> 1 / 16"
    and "\<bar>fl (100 / fl (real_of_int D * 60)) - 100 / real_of_int (D * 60)\<bar> \<le> 1 / 2 ^ 58"
proof -
  have "\<bar>D * 60\<bar> < 2 ^ 53" using assms by simp
  then have "fl (of_int (D * 60)) = real_of_int (D * 60)" by (rule fl_of_int)
  then show p: "fl (real_of_int D * 60) = of_int (D * 60)" by simp
  define x where "x = 100 / real_of_int (D * 60)"
  have "1800 \<le> real_of_int (D * 60)" "real_of_int (D * 60) \<le> 14400"
    using assms by simp_all
  then have lo: "1 / 256 \<le> x" and hi: "x \<le> 1 / 16" and hi': "x < 1 / 16"
    by (simp_all add: x_def field_simps)
  have ax: "\<bar>x\<bar> < 1" using lo hi by simp
  have "of_int 1 * 2 powr of_int (- 8) \<le> fl x"
    using lo ax by (intro fl_ge) (simp_all add: powr_minus_divide)
  then show "1 / 256 \<le> fl (100 / fl (real_of_int D * 60))"
    by (simp add: p x_def powr_minus_divide)
  have "fl x \<le> of_int 1 * 2 powr of_int (- 4)"
    using hi ax by (intro fl_le) (simp_all add: powr_minus_divide)
  then show "fl (100 / fl (real_of_int D * 60)) \<le> 1 / 16"
    by (simp add: p x_def powr_minus_divide)
  have "\<bar>fl x - x\<bar> \<le> 2 powr of_int (- 4 - 54)"
    using hi' lo by (intro fl_error) (simp_all add: powr_minus_divide)
  then show "\<bar>fl (100 / fl (real_of_int D * 60)) - 100 / real_of_int (D * 60)\<bar> \<le> 1 / 2 ^ 58"
    by (simp add: p x_def powr_minus_divide)
qed

text \<open>One subtraction of such a decrement from a level.\<close>

lemma tick_level:
  assumes "0 \<le> x" "x \<le> 101" "1 / 256 \<le> d" "d \<le> 1 / 16"
  shows "\<bar>fl (x - d) - (x - d)\<bar> \<le> 1 / 2 ^ 47"
    and "fl (x - d) < x"
    and "x \<le> 100 \<Longrightarrow> fl (x - d) \<le> 100"
proof -
  have ax: "\<bar>x - d\<bar> < 128" using assms by simp
  have "\<bar>fl (x - d) - (x - d)\<bar> \<le> 2 powr of_int (7 - 54)"
    using ax by (intro fl_error) (simp_all add: powr_minus_divide)
  then show e: "\<bar>fl (x - d) - (x - d)\<bar> \<le> 1 / 2 ^ 47"
    by (simp add: powr_minus_divide)
  have "(1::real) / 2 ^ 47 < 1 / 256" by simp
  with e assms(3) show "fl (x - d) < x" by linarith
  assume "x \<le> 100"
  then have "x - d \<le> of_int 25 * 2 powr of_int 2" using assms(3) by simp
  then have "fl (x - d) \<le> of_int 25 * 2 powr of_int 2"
    using ax by (intro fl_le) (simp_all add: powr_minus_divide)
  then show "fl (x - d) \<le> 100" by simp
qed

lemma fl_nonpos:
  assumes "x \<le> 0" "- 128 < x"
  shows "fl x \<le> 0"
proof -
  have "fl x \<le> of_int 0 * 2 powr of_int 0"
    using assms by (intro fl_le) (simp_all add: powr_minus_divide)
  then show ?thesis by simp
qed

subsection \<open>The branch of the driver that empties\<close>

lemmas timer_defs = startHydrationTimer_def setInterval_def clearInterval_def
  timerEffect_def timerEffectCleanup_def rendered_def resetHydration_def showMessage_def

lemma waterEmpty_eq:
  "waterEmpty c s =
     (if browser (cReminders c) \<and> notificationPermission s = None then Inl ReferenceError
      else Inr (s\<lparr>hydrationIntervalRef := None,
                   intervals := filter (\<lambda>p. Some (fst p) \<noteq> hydrationIntervalRef s) (intervals s),
                   triggerReminderCalls := Suc (triggerReminderCalls s),
                   notificationsSent := notificationsSent s +
                     (if browser (cReminders c) \<and> notificationPermission s = Some Granted
                      then 1 else 0),
                   soundsPlayed := soundsPlayed s + (if sound (cReminders c) then 1 else 0),
                   visualFlashes := visualFlashes s + (if visual (cReminders c) then 1 else 0),
                   messageBox := \<lparr>message = ''Time to drink water!'', visible = True\<rparr>,
                   dismissTimeouts := dismissTimeouts s @ [5000],
                   currentWaterLevel := 0\<rparr>))"
  by (cases "hydrationIntervalRef s"; cases "notificationPermission s";
      cases "browser (cReminders c)"; cases "sound (cReminders c)"; cases "visual (cReminders c)";
      simp add: waterEmpty_def triggerReminder_def sendBrowserNotification_def
        playReminderSound_def applyVisualFlash_def showMessage_def clearInterval_def
        bindE_def Let_def)

lemma waterEmpty_throws:
  "waterEmpty c s = Inl e \<longleftrightarrow>
     e = ReferenceError \<and> browser (cReminders c) \<and> notificationPermission s = None"
proof (cases "browser (cReminders c) \<and> notificationPermission s = None")
  case True
  have "waterEmpty c s = Inl ReferenceError"
    unfolding waterEmpty_eq by (rule if_P) (rule True)
  with True show ?thesis by auto
next
  case False
  have "\<exists>t. waterEmpty c s = Inr t"
    unfolding waterEmpty_eq by (subst if_not_P) (rule False, blast)
  with False show ?thesis by auto
qed

lemma waterEmpty_fields:
  assumes "waterEmpty c s = Inr t"
  shows "currentWaterLevel t = 0"
    "hydrationIntervalRef t = None"
    "intervals t = filter (\<lambda>p. Some (fst p) \<noteq> hydrationIntervalRef s) (intervals s)"
    "triggerReminderCalls t = Suc (triggerReminderCalls s)"
    "messageBox t = \<lparr>message = ''Time to drink water!'', visible = True\<rparr>"
    "timerDuration t = timerDuration s"
    "reminderSettings t = reminderSettings s"
    "notificationsSent t = notificationsSent s +
       (if browser (cReminders c) \<and> notificationPermission s = Some Granted then 1 else 0)"
    "soundsPlayed t = soundsPlayed s + (if sound (cReminders c) then 1 else 0)"
    "visualFlashes t = visualFlashes s + (if visual (cReminders c) then 1 else 0)"
    "lastHandle t = lastHandle s"
    "notificationPermission t = notificationPermission s"
proof -
  let ?t = "s\<lparr>hydrationIntervalRef := None,
                   intervals := filter (\<lambda>p. Some (fst p) \<noteq> hydrationIntervalRef s) (intervals s),
                   triggerReminderCalls := Suc (triggerReminderCalls s),
                   notificationsSent := notificationsSent s +
                     (if browser (cReminders c) \<and> notificationPermission s = Some Granted
                      then 1 else 0),
                   soundsPlayed := soundsPlayed s + (if sound (cReminders c) then 1 else 0),
                   visualFlashes := visualFlashes s + (if visual (cReminders c) then 1 else 0),
                   messageBox := \<lparr>message = ''Time to drink water!'', visible = True\<rparr>,
                   dismissTimeouts := dismissTimeouts s @ [5000],
                   currentWaterLevel := 0\<rparr>"
  have no: "\<not> (browser (cReminders c) \<and> notificationPermission s = None)"
    using assms waterEmpty_throws [of c s ReferenceError] by auto
  have "waterEmpty c s = Inr ?t"
    unfolding waterEmpty_eq by (rule if_not_P) (rule no)
  with assms have t: "t = ?t" by (simp only: sum.inject)
  show "currentWaterLevel t = 0" unfolding t by simp
  show "hydrationIntervalRef t = None" unfolding t by simp
  show "intervals t = filter (\<lambda>p. Some (fst p) \<noteq> hydrationIntervalRef s) (intervals s)"
    unfolding t by simp
  show "triggerReminderCalls t = Suc (triggerReminderCalls s)" unfolding t by simp
  show "messageBox t = \<lparr>message = ''Time to drink water!'', visible = True\<rparr>"
    unfolding t by simp
  show "timerDuration t = timerDuration s" unfolding t by simp
  show "reminderSettings t = reminderSettings s" unfolding t by simp
  show "notificationsSent t = notificationsSent s +
       (if browser (cReminders c) \<and> notificationPermission s = Some Granted then 1 else 0)"
    unfolding t by simp
  show "soundsPlayed t = soundsPlayed s + (if sound (cReminders c) then 1 else 0)"
    unfolding t by simp
  show "visualFlashes t = visualFlashes s + (if visual (cReminders c) then 1 else 0)"
    unfolding t by simp
  show "lastHandle t = lastHandle s" unfolding t by simp
  show "notificationPermission t = notificationPermission s" unfolding t by simp
qed

lemma waterEmpty_returns:
  assumes "notificationPermission s \<noteq> None \<or> \<not> browser (cReminders c)"
  shows "\<exists>t. waterEmpty c s = Inr t"
proof (cases "waterEmpty c s")
  case (Inl e)
  then have "browser (cReminders c) \<and> notificationPermission s = None"
    by (simp only: waterEmpty_throws)
  with assms show ?thesis by simp
next
  case (Inr t)
  then show ?thesis by (rule exI)
qed

lemma decrementWaterLevel_unfold:
  assumes "cDuration c \<noteq> 0" "d = fl (100 / fl (real_of_int (cDuration c) * 60))"
  shows "decrementWaterLevel c s =
     (if fl (currentWaterLevel s - d) \<le> 0 then waterEmpty c s
      else Inr (s\<lparr>currentWaterLevel := fl (currentWaterLevel s - d)\<rparr>))"
  using assms by (simp add: decrementWaterLevel_def Let_def)

subsection \<open>The invariant of the timer\<close>

lemma timerInv_mounted: "timerInv (mounted perm)"
  by (simp add: timerInv_def mounted_def initialState_def timer_defs sliderValue_def)

lemma timerInv_tick:
  assumes "timerInv s" "map_of (intervals s) h = Some c" "decrementWaterLevel c s = Inr s'"
  shows "timerInv s'"
proof -
  from assms obtain h0 where ref: "hydrationIntervalRef s = Some h0"
    by (cases "hydrationIntervalRef s") (auto simp: timerInv_def)
  with assms have live: "intervals s = [(h0, rendered s)]" and c: "c = rendered s"
    by (auto simp: timerInv_def split: if_splits)
  define d where "d = fl (100 / fl (real_of_int (timerDuration s) * 60))"
  from assms(1) have D: "30 \<le> timerDuration s" "timerDuration s \<le> 240"
    and range: "0 \<le> currentWaterLevel s" "currentWaterLevel s \<le> 100"
    by (simp_all add: timerInv_def sliderValue_def)
  have d: "1 / 256 \<le> d" "d \<le> 1 / 16"
    unfolding d_def using D by (rule decrement_bounds)+
  have dec: "decrementWaterLevel c s =
      (if fl (currentWaterLevel s - d) \<le> 0 then waterEmpty c s
       else Inr (s\<lparr>currentWaterLevel := fl (currentWaterLevel s - d)\<rparr>))"
    using D by (intro decrementWaterLevel_unfold) (simp_all add: c d_def rendered_def)
  show ?thesis
  proof (cases "fl (currentWaterLevel s - d) \<le> 0")
    case True
    with dec assms(3) have e: "waterEmpty c s = Inr s'" by simp
    show ?thesis
      using assms(1) ref live
      by (simp add: timerInv_def waterEmpty_fields [OF e] rendered_def)
  next
    case False
    with dec assms(3) have s': "s' = s\<lparr>currentWaterLevel := fl (currentWaterLevel s - d)\<rparr>"
      by simp
    have "fl (currentWaterLevel s - d) \<le> 100"
      using range d by (intro tick_level(3)) simp_all
    then show ?thesis
      using assms(1) ref live False by (simp add: s' timerInv_def rendered_def)
  qed
qed

lemma tipTry_frame:
  "tipTry conv f s = Inr t \<Longrightarrow> \<exists>v. t = s\<lparr>hydrationTip := v\<rparr>"
  by (auto simp: tipTry_def bindE_def split: fetched.splits if_splits option.splits sum.splits)

lemma timerInv_tipSettled: "timerInv (getHydrationTipSettled conv f s) = timerInv s"
proof (cases "tipTry conv f s")
  case (Inl e)
  then show ?thesis
    by (simp add: getHydrationTipSettled_def showMessage_def timerInv_def rendered_def
        cong: option.case_cong)
next
  case (Inr t)
  then obtain v where "t = s\<lparr>hydrationTip := v\<rparr>"
    using tipTry_frame by blast
  with Inr show ?thesis
    by (simp add: getHydrationTipSettled_def timerInv_def rendered_def cong: option.case_cong)
qed

lemma timerInv_step:
  assumes "timerInv s" "step conv e s = Some (Inr s')"
  shows "timerInv s'"
proof (cases e)
  case (Tick h)
  with assms show ?thesis
    by (auto simp: step_def split: option.splits intro: timerInv_tick)
next
  case (TimerChange v)
  with assms show ?thesis
    by (cases "hydrationIntervalRef s")
       (auto simp: step_def handleTimerChange_def timerInv_def timer_defs split: if_splits)
next
  case (BodyTypeChange b)
  with assms show ?thesis
    by (cases "hydrationIntervalRef s")
       (auto simp: step_def handleBodyTypeChange_def timerInv_def rendered_def split: if_splits)
next
  case (ReminderChange ident checked)
  with assms show ?thesis
    by (cases "hydrationIntervalRef s"; cases ident; cases "notificationPermission s")
       (auto simp: step_def handleReminderChange_def requestNotificationPermission_def
          timerInv_def timer_defs Let_def split: if_splits)
next
  case DrinkNow
  with assms show ?thesis
    by (cases "hydrationIntervalRef s")
       (auto simp: step_def timerInv_def timer_defs sliderValue_def split: if_splits)
next
  case ResetAll
  with assms show ?thesis
    by (cases "hydrationIntervalRef s")
       (auto simp: step_def resetAll_def timerInv_def timer_defs sliderValue_def Let_def)
next
  case GetTip
  with assms show ?thesis
    by (cases "hydrationIntervalRef s")
       (auto simp: step_def getHydrationTipStart_def timerInv_def rendered_def split: if_splits)
next
  case (TipSettled f)
  with assms show ?thesis
    by (auto simp: step_def timerInv_tipSettled Let_def split: if_splits)
next
  case (PermissionSettled p)
  with assms show ?thesis
    by (cases "hydrationIntervalRef s")
       (auto simp: step_def permissionSettled_def timerInv_def timer_defs Let_def split: if_splits)
next
  case (MessageTimeout i)
  with assms show ?thesis
    by (cases "hydrationIntervalRef s")
       (auto simp: step_def messageTimeout_def timerInv_def rendered_def split: if_splits)
qed

lemma timerInv_run:
  "timerInv s \<Longrightarrow> run conv es s = Some (Inr s') \<Longrightarrow> timerInv s'"
proof (induction es arbitrary: s)
  case Nil
  then show ?case by simp
next
  case (Cons e es)
  from Cons.prems(2) obtain s1 where "step conv e s = Some (Inr s1)"
    and "run conv es s1 = Some (Inr s')"
    by (auto split: option.splits sum.splits if_splits)
  with Cons.IH Cons.prems(1) timerInv_step show ?case by blast
qed

lemma timerInv_reachable: "run conv es (mounted perm) = Some (Inr s) \<Longrightarrow> timerInv s"
  using timerInv_mounted timerInv_run by blast

lemma run_append:
  "run conv es s = Some (Inr t) \<Longrightarrow> run conv (es @ fs) s = run conv fs t"
proof (induction es arbitrary: s)
  case Nil
  then show ?case by simp
next
  case (Cons e es)
  from Cons.prems obtain s1 where "step conv e s = Some (Inr s1)"
    and "run conv es s1 = Some (Inr t)"
    by (auto split: option.splits sum.splits if_splits)
  with Cons.IH [of s1] show ?case by simp
qed

subsection \<open>The mounted component\<close>

lemma mounted_simps:
  "currentWaterLevel (mounted perm) = 100"
  "timerDuration (mounted perm) = 60"
  "reminderSettings (mounted perm) = \<lparr>browser = False, sound = False, visual = False\<rparr>"
  "hydrationIntervalRef (mounted perm) = Some 1"
  "intervals (mounted perm) = [(1, \<lparr>cDuration = 60,
      cReminders = \<lparr>browser = False, sound = False, visual = False\<rparr>\<rparr>)]"
  "notificationPermission (mounted perm) = perm"
  "triggerReminderCalls (mounted perm) = 0"
  "notificationsSent (mounted perm) = 0"
  "soundsPlayed (mounted perm) = 0"
  "visualFlashes (mounted perm) = 0"
  "permissionRequests (mounted perm) = 0"
  "messageBox (mounted perm) = \<lparr>message = '''', visible = False\<rparr>"
  "isLoadingTip (mounted perm) = False"
  "hydrationTip (mounted perm) = Str ''''"
  "selectedBodyType (mounted perm) = ''generic''"
  "lastHandle (mounted perm) = 1"
  "dismissTimeouts (mounted perm) = []"
  by (simp_all add: mounted_def initialState_def timer_defs)

subsection \<open>Runs of ticks\<close>

lemma levelAfter_simps:
  "levelAfter d 0 x = x"
  "levelAfter d (Suc k) x = fl (levelAfter d k x - d)"
  by (simp_all add: levelAfter_def)

lemma levelAfter_first: "levelAfter d (Suc k) x = levelAfter d k (fl (x - d))"
  by (simp only: levelAfter_def funpow_Suc_right o_apply)

text \<open>A tick of the live interval of the current render.\<close>

lemma step_Tick_live:
  assumes "hydrationIntervalRef s = Some h" "intervals s = [(h, rendered s)]"
    and "timerDuration s \<noteq> 0" and "d = fl (100 / fl (real_of_int (timerDuration s) * 60))"
  shows "step conv (Tick h) s =
     Some (if fl (currentWaterLevel s - d) \<le> 0 then waterEmpty (rendered s) s
           else Inr (s\<lparr>currentWaterLevel := fl (currentWaterLevel s - d)\<rparr>))"
  using assms by (simp add: step_def decrementWaterLevel_def rendered_def Let_def)

text \<open>Ticks that leave a positive level change the level and nothing else.\<close>

lemma run_ticks_positive:
  assumes "timerDuration s \<noteq> 0" "hydrationIntervalRef s = Some h"
    and "intervals s = [(h, rendered s)]"
    and "d = fl (100 / fl (real_of_int (timerDuration s) * 60))"
    and "\<forall>j. 0 < j \<and> j \<le> k \<longrightarrow> 0 < levelAfter d j (currentWaterLevel s)"
  shows "run conv (replicate k (Tick h)) s =
     Some (Inr (s\<lparr>currentWaterLevel := levelAfter d k (currentWaterLevel s)\<rparr>))"
  using assms
proof (induction k arbitrary: s)
  case 0
  then show ?case by (simp add: levelAfter_simps)
next
  case (Suc k)
  let ?s1 = "s\<lparr>currentWaterLevel := fl (currentWaterLevel s - d)\<rparr>"
  have "0 < levelAfter d (Suc 0) (currentWaterLevel s)" using Suc.prems(5) by blast
  then have pos: "0 < fl (currentWaterLevel s - d)" by (simp add: levelAfter_simps)
  have first: "step conv (Tick h) s = Some (Inr ?s1)"
    using step_Tick_live [OF Suc.prems(2,3,1,4)] pos by simp
  have later: "\<forall>j. 0 < j \<and> j \<le> k \<longrightarrow> 0 < levelAfter d j (currentWaterLevel ?s1)"
  proof (intro allI impI)
    fix j assume "0 < j \<and> j \<le> k"
    then have "0 < levelAfter d (Suc j) (currentWaterLevel s)" using Suc.prems(5) by simp
    then show "0 < levelAfter d j (currentWaterLevel ?s1)" by (simp add: levelAfter_first)
  qed
  have "run conv (replicate k (Tick h)) ?s1 =
      Some (Inr (?s1\<lparr>currentWaterLevel := levelAfter d k (currentWaterLevel ?s1)\<rparr>))"
    using Suc.prems(1-4) later by (intro Suc.IH) (simp_all add: rendered_def)
  then show ?case
    using first by (simp add: levelAfter_first)
qed

text \<open>The first tick whose result is not positive ends the run in the emptying branch.\<close>

lemma run_ticks_empty:
  assumes "timerDuration s \<noteq> 0" "hydrationIntervalRef s = Some h"
    and "intervals s = [(h, rendered s)]"
    and "d = fl (100 / fl (real_of_int (timerDuration s) * 60))"
    and "\<forall>j. 0 < j \<and> j \<le> k \<longrightarrow> 0 < levelAfter d j (currentWaterLevel s)"
    and "levelAfter d (Suc k) (currentWaterLevel s) \<le> 0"
  shows "run conv (replicate (Suc k) (Tick h)) s =
     Some (waterEmpty (rendered s) (s\<lparr>currentWaterLevel := levelAfter d k (currentWaterLevel s)\<rparr>))"
proof -
  let ?t = "s\<lparr>currentWaterLevel := levelAfter d k (currentWaterLevel s)\<rparr>"
  have before: "run conv (replicate k (Tick h)) s = Some (Inr ?t)"
    using assms(1-5) by (rule run_ticks_positive)
  have "step conv (Tick h) ?t =
      Some (if fl (currentWaterLevel ?t - d) \<le> 0 then waterEmpty (rendered ?t) ?t
            else Inr (?t\<lparr>currentWaterLevel := fl (currentWaterLevel ?t - d)\<rparr>))"
    using assms(1-4) by (intro step_Tick_live) (simp_all add: rendered_def)
  then have last: "step conv (Tick h) ?t = Some (waterEmpty (rendered s) ?t)"
    using assms(6) by (simp add: rendered_def levelAfter_simps)
  have "replicate (Suc k) (Tick h) = replicate k (Tick h) @ [Tick h]"
    by (simp add: replicate_append_same)
  then have "run conv (replicate (Suc k) (Tick h)) s = run conv [Tick h] ?t"
    using run_append [OF before, of "[Tick h]"] by simp
  then show ?thesis
    using last by (simp split: sum.splits)
qed

text \<open>What a tick is in a state that satisfies the invariant.\<close>

lemma tick_reachable:
  assumes "timerInv s" "step conv (Tick h) s = Some r"
    and "d = fl (100 / fl (real_of_int (timerDuration s) * 60))"
  shows "hydrationIntervalRef s = Some h" "intervals s = [(h, rendered s)]"
    "r = (if fl (currentWaterLevel s - d) \<le> 0 then waterEmpty (rendered s) s
          else Inr (s\<lparr>currentWaterLevel := fl (currentWaterLevel s - d)\<rparr>))"
proof -
  from assms obtain c where c: "map_of (intervals s) h = Some c"
    by (auto simp: step_def split: option.splits)
  with assms(1) obtain h0 where h0: "hydrationIntervalRef s = Some h0"
    by (cases "hydrationIntervalRef s") (auto simp: timerInv_def)
  with assms(1) c have live: "intervals s = [(h0, rendered s)]" and h: "h = h0"
    by (auto simp: timerInv_def split: if_splits)
  show ref: "hydrationIntervalRef s = Some h" and one: "intervals s = [(h, rendered s)]"
    using h0 live h by simp_all
  have "timerDuration s \<noteq> 0" using assms(1) by (simp add: timerInv_def sliderValue_def)
  from step_Tick_live [OF ref one this assms(3)] assms(2)
  show "r = (if fl (currentWaterLevel s - d) \<le> 0 then waterEmpty (rendered s) s
          else Inr (s\<lparr>currentWaterLevel := fl (currentWaterLevel s - d)\<rparr>))"
    by simp
qed

lemma stopped_stays_stopped:
  assumes "intervals s = []" "step conv e s = Some (Inr s')" "\<not> startsTimer e"
  shows "intervals s' = []"
proof (cases e)
  case (TipSettled f)
  show ?thesis
  proof (cases "tipTry conv f s")
    case (Inl err)
    with TipSettled assms show ?thesis
      by (auto simp: step_def getHydrationTipSettled_def showMessage_def Let_def split: if_splits)
  next
    case (Inr t)
    then obtain v where "t = s\<lparr>hydrationTip := v\<rparr>" using tipTry_frame by blast
    with Inr TipSettled assms show ?thesis
      by (auto simp: step_def getHydrationTipSettled_def Let_def split: if_splits)
  qed
qed (use assms in \<open>auto simp: startsTimer_def step_def handleBodyTypeChange_def
      getHydrationTipStart_def permissionSettled_def showMessage_def messageTimeout_def
      split: if_splits option.splits\<close>)

subsection \<open>Depletion from a full level\<close>

text \<open>
  From the level \<open>100\<close>, with a duration \<open>D\<close> between \<open>30\<close> and \<open>240\<close>: after \<open>k < D * 60\<close>
  ticks the level differs from \<open>100 - k * 100 / (D * 60)\<close> by at most \<open>k / 2 ^ 46\<close>, the
  rounding errors of \<open>k\<close> subtractions and of the decrement, and it is positive.
\<close>

lemma levelAfter_track:
  assumes "30 \<le> D" "D \<le> 240" "d = fl (100 / fl (real_of_int D * 60))"
    and "k < nat (D * 60)"
  shows "\<bar>levelAfter d k 100 - (100 - real k * (100 / real_of_int (D * 60)))\<bar> \<le> real k / 2 ^ 46 \<and>
         0 < levelAfter d k 100"
  using assms(4)
proof (induction k)
  case 0
  show ?case by (simp add: levelAfter_simps)
next
  case (Suc k)
  define dx where "dx = 100 / real_of_int (D * 60)"
  define y where "y = levelAfter d k 100"
  define z where "z = fl (y - d)"
  have N: "real (nat (D * 60)) = real_of_int (D * 60)" using assms(1) by simp
  have Nb: "1800 \<le> real_of_int (D * 60)" "real_of_int (D * 60) \<le> 14400"
    using assms(1,2) by simp_all
  have full: "real_of_int (D * 60) * dx = 100" using Nb by (simp add: dx_def)
  have dx: "1 / 144 \<le> dx" "dx \<le> 1 / 18" using Nb by (simp_all add: dx_def field_simps)
  have d: "1 / 256 \<le> d" "d \<le> 1 / 16" "\<bar>d - dx\<bar> \<le> 1 / 2 ^ 58"
    unfolding assms(3) dx_def using assms(1,2) by (rule decrement_bounds)+
  have k: "real k + 2 \<le> real_of_int (D * 60)"
  proof -
    have "k + 2 \<le> nat (D * 60)" using Suc.prems by simp
    then have "real (k + 2) \<le> real (nat (D * 60))" by (simp only: of_nat_le_iff)
    then show ?thesis by (simp add: N)
  qed
  from Suc.IH Suc.prems have IH: "\<bar>y - (100 - real k * dx)\<bar> \<le> real k / 2 ^ 46" "0 < y"
    by (simp_all add: y_def dx_def)
  have small: "real k / 2 ^ 46 \<le> 14400 / 2 ^ 46"
    using k Nb(2) by (intro divide_right_mono) simp_all
  have tiny: "(14400::real) / 2 ^ 46 < 1 / 288" by simp
  have "0 \<le> real k * dx" using dx by simp
  then have y101: "y \<le> 101" using IH(1) small tiny by linarith
  have round: "\<bar>z - (y - d)\<bar> \<le> 1 / 2 ^ 47"
    unfolding z_def using IH(2) y101 d(1,2) by (intro tick_level(1)) simp_all
  have "\<bar>z - (100 - real (Suc k) * dx)\<bar> \<le> 1 / 2 ^ 47 + real k / 2 ^ 46 + 1 / 2 ^ 58"
  proof -
    have "z - (100 - real (Suc k) * dx) = (z - (y - d)) + (y - (100 - real k * dx)) - (d - dx)"
      by (simp add: algebra_simps)
    then show ?thesis using round IH(1) d(3) by linarith
  qed
  moreover have "1 / 2 ^ 47 + real k / 2 ^ 46 + 1 / 2 ^ 58 \<le> real (Suc k) / 2 ^ 46"
    by (simp add: field_simps)
  ultimately have err: "\<bar>z - (100 - real (Suc k) * dx)\<bar> \<le> real (Suc k) / 2 ^ 46" by linarith
  have "real (Suc k) / 2 ^ 46 \<le> 14400 / 2 ^ 46"
    using k Nb(2) by (intro divide_right_mono) simp_all
  moreover have "dx \<le> 100 - real (Suc k) * dx"
  proof -
    have "1 * dx \<le> (real_of_int (D * 60) - real (Suc k)) * dx"
      using k dx(1) by (intro mult_right_mono) simp_all
    then show ?thesis using full by (simp add: algebra_simps)
  qed
  ultimately have zpos: "0 < z" using err dx(1) tiny by linarith
  have zl: "levelAfter d (Suc k) 100 = z"
    by (simp only: levelAfter_simps z_def y_def)
  show ?case
    unfolding zl dx_def [symmetric] using err zpos by (rule conjI)
qed

text \<open>
  So the ticks before number \<open>D * 60\<close> leave a positive, falling level, and the tick that
  takes the emptying branch is number \<open>D * 60\<close> or the one after it.
\<close>

lemma depletion_ticks:
  assumes "30 \<le> D" "D \<le> 240"
    and "timerDuration s = D" "currentWaterLevel s = 100"
    and "hydrationIntervalRef s = Some h" "intervals s = [(h, rendered s)]"
    and "d = fl (100 / fl (real_of_int D * 60))" "N = nat (D * 60)"
  shows "\<exists>n. (n = N \<or> n = Suc N) \<and>
           (\<forall>k<n. run conv (replicate k (Tick h)) s =
                     Some (Inr (s\<lparr>currentWaterLevel := levelAfter d k 100\<rparr>)) \<and>
                   0 < levelAfter d k 100 \<and>
                   (0 < k \<longrightarrow> levelAfter d k 100 < levelAfter d (k - 1) 100)) \<and>
           levelAfter d n 100 \<le> 0 \<and>
           run conv (replicate n (Tick h)) s =
             Some (waterEmpty (rendered s) (s\<lparr>currentWaterLevel := levelAfter d (n - 1) 100\<rparr>))"
proof -
  define dx where "dx = 100 / real_of_int (D * 60)"
  have D0: "timerDuration s \<noteq> 0" using assms(1,3) by simp
  have ds: "d = fl (100 / fl (real_of_int (timerDuration s) * 60))" using assms(3,7) by simp
  have Nr: "real N = real_of_int (D * 60)" using assms(1,8) by simp
  have Nb: "1800 \<le> real N" "real N \<le> 14400" using assms(1,2) by (simp_all add: Nr)
  have Npos: "0 < N" using assms(1,8) by simp
  have full: "real N * dx = 100" using Nb by (simp add: dx_def Nr)
  have d: "1 / 256 \<le> d" "d \<le> 1 / 16" "\<bar>d - dx\<bar> \<le> 1 / 2 ^ 58"
    unfolding assms(7) dx_def using assms(1,2) by (rule decrement_bounds)+
  have tiny: "(14400::real) / 2 ^ 46 < 1 / 288"
    "1 / 2 ^ 58 + 14400 / 2 ^ 46 + 1 / 2 ^ 47 < (1::real) / 256" by simp_all
  have dxpos: "0 \<le> dx" using assms(1) by (simp add: dx_def)
  have track: "\<bar>levelAfter d k 100 - (100 - real k * dx)\<bar> \<le> real k / 2 ^ 46"
      "0 < levelAfter d k 100" if "k < N" for k
    using levelAfter_track [OF assms(1,2,7), of k] that by (simp_all add: assms(8) dx_def)
  have upper: "levelAfter d k 100 \<le> 101" if "k < N" for k
  proof -
    have "real k / 2 ^ 46 \<le> 14400 / 2 ^ 46"
      using that Nb(2) by (intro divide_right_mono) simp_all
    moreover have "0 \<le> real k * dx" using dxpos by simp
    ultimately show ?thesis using track(1) [OF that] tiny(1) by linarith
  qed
  have falls: "levelAfter d (Suc k) 100 < levelAfter d k 100" if "k < N" for k
    unfolding levelAfter_simps(2) [of d k 100]
    using track(2) [OF that] upper [OF that] d(1,2) by (intro tick_level(2)) simp_all
  have runs: "run conv (replicate k (Tick h)) s =
      Some (Inr (s\<lparr>currentWaterLevel := levelAfter d k 100\<rparr>))"
    if "\<forall>j. 0 < j \<and> j \<le> k \<longrightarrow> 0 < levelAfter d j 100" for k
    using run_ticks_positive [OF D0 assms(5,6) ds, of k conv] that by (simp add: assms(4))
  define y where "y = levelAfter d (N - 1) 100"
  define z where "z = levelAfter d N 100"
  have zy: "z = fl (y - d)"
    using Npos levelAfter_simps(2) [of d "N - 1" 100] by (simp add: y_def z_def)
  show ?thesis
  proof (cases "z \<le> 0")
    case True
    have before: "run conv (replicate k (Tick h)) s =
          Some (Inr (s\<lparr>currentWaterLevel := levelAfter d k 100\<rparr>)) \<and>
        0 < levelAfter d k 100 \<and>
        (0 < k \<longrightarrow> levelAfter d k 100 < levelAfter d (k - 1) 100)" if "k < N" for k
    proof (intro conjI impI)
      show "run conv (replicate k (Tick h)) s =
          Some (Inr (s\<lparr>currentWaterLevel := levelAfter d k 100\<rparr>))"
        using that track(2) by (intro runs) simp
      show "0 < levelAfter d k 100" using that by (rule track(2))
      assume "0 < k"
      then have "levelAfter d (Suc (k - 1)) 100 < levelAfter d (k - 1) 100"
        using that by (intro falls) simp
      with \<open>0 < k\<close> show "levelAfter d k 100 < levelAfter d (k - 1) 100" by simp
    qed
    have p: "\<forall>j. 0 < j \<and> j \<le> N - 1 \<longrightarrow> 0 < levelAfter d j (currentWaterLevel s)"
    proof (intro allI impI)
      fix j assume "0 < j \<and> j \<le> N - 1"
      then have "j < N" using Npos by auto
      then show "0 < levelAfter d j (currentWaterLevel s)"
        unfolding assms(4) by (rule track(2))
    qed
    have e: "levelAfter d (Suc (N - 1)) (currentWaterLevel s) \<le> 0"
      using True Npos by (simp add: z_def assms(4))
    have "run conv (replicate (Suc (N - 1)) (Tick h)) s =
        Some (waterEmpty (rendered s)
          (s\<lparr>currentWaterLevel := levelAfter d (N - 1) (currentWaterLevel s)\<rparr>))"
      by (rule run_ticks_empty [OF D0 assms(5,6) ds p e])
    then have last: "run conv (replicate N (Tick h)) s =
        Some (waterEmpty (rendered s) (s\<lparr>currentWaterLevel := levelAfter d (N - 1) 100\<rparr>))"
      using Npos by (simp add: assms(4))
    show ?thesis
      using before last True by (intro exI [of _ N]) (simp add: z_def)
  next
    case False
    then have zpos: "0 < z" by simp
    have pos: "0 < levelAfter d k 100" if "k \<le> N" for k
      using that zpos track(2) [of k] by (cases "k = N") (simp_all add: z_def)
    have ylow: "y \<le> dx + 14400 / 2 ^ 46"
    proof -
      have "real (N - 1) / 2 ^ 46 \<le> 14400 / 2 ^ 46"
        using Nb(2) by (intro divide_right_mono) simp_all
      moreover have "100 - real (N - 1) * dx = dx"
        using full Npos by (simp add: of_nat_diff algebra_simps)
      moreover have "\<bar>y - (100 - real (N - 1) * dx)\<bar> \<le> real (N - 1) / 2 ^ 46"
        unfolding y_def using Npos by (intro track(1)) simp
      ultimately show ?thesis by linarith
    qed
    have y: "0 < y" "y \<le> 101"
      using track(2) [of "N - 1"] upper [of "N - 1"] Npos by (simp_all add: y_def)
    have "\<bar>z - (y - d)\<bar> \<le> 1 / 2 ^ 47"
      unfolding zy using y d(1,2) by (intro tick_level(1)) simp_all
    then have zsmall: "z < 1 / 256" using ylow d(3) tiny(2) by linarith
    have zfall: "z < y"
      unfolding zy using y d(1,2) by (intro tick_level(2)) simp_all
    have "fl (z - d) \<le> 0"
      using zsmall zpos d(1,2) by (intro fl_nonpos) simp_all
    then have empty: "levelAfter d (Suc N) 100 \<le> 0"
      by (simp add: levelAfter_simps z_def)
    have before: "run conv (replicate k (Tick h)) s =
          Some (Inr (s\<lparr>currentWaterLevel := levelAfter d k 100\<rparr>)) \<and>
        0 < levelAfter d k 100 \<and>
        (0 < k \<longrightarrow> levelAfter d k 100 < levelAfter d (k - 1) 100)" if "k < Suc N" for k
    proof (intro conjI impI)
      show "run conv (replicate k (Tick h)) s =
          Some (Inr (s\<lparr>currentWaterLevel := levelAfter d k 100\<rparr>))"
        using that pos by (intro runs) simp
      show "0 < levelAfter d k 100" using that by (intro pos) simp
      assume "0 < k"
      then have "levelAfter d (Suc (k - 1)) 100 < levelAfter d (k - 1) 100"
        using that by (intro falls) simp
      with \<open>0 < k\<close> show "levelAfter d k 100 < levelAfter d (k - 1) 100" by simp
    qed
    have p: "\<forall>j. 0 < j \<and> j \<le> N \<longrightarrow> 0 < levelAfter d j (currentWaterLevel s)"
      using pos by (simp add: assms(4))
    have e: "levelAfter d (Suc N) (currentWaterLevel s) \<le> 0"
      using empty by (simp only: assms(4))
    have "run conv (replicate (Suc N) (Tick h)) s =
        Some (waterEmpty (rendered s)
          (s\<lparr>currentWaterLevel := levelAfter d N (currentWaterLevel s)\<rparr>))"
      by (rule run_ticks_empty [OF D0 assms(5,6) ds p e])
    then have last: "run conv (replicate (Suc N) (Tick h)) s =
        Some (waterEmpty (rendered s) (s\<lparr>currentWaterLevel := levelAfter d (Suc N - 1) 100\<rparr>))"
      by (simp add: assms(4))
    show ?thesis
      using before last empty by (intro exI [of _ "Suc N"]) simp
  qed
qed

subsection \<open>The default duration, tick by tick\<close>

text \<open>
  The integer computation agrees with the rounded subtraction on multiples of a power
  of two.
\<close>

lemma ticksScaled_levels:
  assumes "- 1074 \<le> u" "ticksScaled q k n = Some m"
  shows "levelAfter (of_int q * 2 powr of_int u) k (of_int n * 2 powr of_int u) =
           of_int m * 2 powr of_int u \<and>
         (\<forall>j. 0 < j \<and> j \<le> k \<longrightarrow>
            0 < levelAfter (of_int q * 2 powr of_int u) j (of_int n * 2 powr of_int u))"
  using assms(2)
proof (induction k arbitrary: n)
  case 0
  then show ?case by (simp add: levelAfter_simps)
next
  case (Suc k)
  define m1 where "m1 = round53 (n - q)"
  from Suc.prems have m1: "0 < m1" and rest: "ticksScaled q k m1 = Some m"
    by (simp_all add: m1_def Let_def split: if_splits)
  have "real_of_int n * 2 powr of_int u - of_int q * 2 powr of_int u =
      of_int (n - q) * 2 powr of_int u"
    by (simp add: algebra_simps)
  then have first: "fl (real_of_int n * 2 powr of_int u - of_int q * 2 powr of_int u) =
      of_int m1 * 2 powr of_int u"
    using fl_round53 [OF assms(1), of "n - q"] by (simp only: m1_def)
  note IH = Suc.IH [OF rest]
  have "0 < levelAfter (of_int q * 2 powr of_int u) j (of_int n * 2 powr of_int u)"
    if "0 < j \<and> j \<le> Suc k" for j
  proof (cases j)
    case 0
    with that show ?thesis by simp
  next
    case (Suc i)
    show ?thesis
    proof (cases "i = 0")
      case True
      with Suc m1 show ?thesis by (simp add: levelAfter_first first levelAfter_simps)
    next
      case False
      with that Suc IH show ?thesis by (simp add: levelAfter_first first)
    qed
  qed
  with IH show ?case by (simp add: levelAfter_first first)
qed

lemma ticksScaled_add:
  "ticksScaled q j n = Some m \<Longrightarrow> ticksScaled q (j + k) n = ticksScaled q k m"
  by (induction j arbitrary: n) (simp_all add: Let_def split: if_splits)

text \<open>
  The \<open>3600\<close> subtractions for the duration \<open>60\<close>, in units of \<open>2 ^ (- 56)\<close>: the level
  \<open>100\<close> is \<open>7205759403792793600\<close> units and the decrement \<open>2001599834386887\<close> units.
  Nine runs of \<open>400\<close> ticks each.
\<close>

lemma ticks_60_part1:
  "ticksScaled 2001599834386887 400 7205759403792793600 =
     Some 6405119470038220800"
  by code_simp

lemma ticks_60_part2:
  "ticksScaled 2001599834386887 400 6405119470038220800 =
     Some 5604479536283648000"
  by code_simp

lemma ticks_60_part3:
  "ticksScaled 2001599834386887 400 5604479536283648000 =
     Some 4803839602529075200"
  by code_simp

lemma ticks_60_part4:
  "ticksScaled 2001599834386887 400 4803839602529075200 =
     Some 4003199668774346752"
  by code_simp

lemma ticks_60_part5:
  "ticksScaled 2001599834386887 400 4003199668774346752 =
     Some 3202559735019569152"
  by code_simp

lemma ticks_60_part6:
  "ticksScaled 2001599834386887 400 3202559735019569152 =
     Some 2401919801264791552"
  by code_simp

lemma ticks_60_part7:
  "ticksScaled 2001599834386887 400 2401919801264791552 =
     Some 1601279867510013952"
  by code_simp

lemma ticks_60_part8:
  "ticksScaled 2001599834386887 400 1601279867510013952 =
     Some 800639933755236352"
  by code_simp

lemma ticks_60_part9:
  "ticksScaled 2001599834386887 400 800639933755236352 =
     Some 476901"
  by code_simp

lemma ticks_60_scaled: "ticksScaled 2001599834386887 3600 7205759403792793600 = Some 476901"
proof -
  note t = ticks_60_part1
  note t = ticksScaled_add [OF t, of 400, unfolded ticks_60_part2]
  note t = ticksScaled_add [OF t, of 400, unfolded ticks_60_part3]
  note t = ticksScaled_add [OF t, of 400, unfolded ticks_60_part4]
  note t = ticksScaled_add [OF t, of 400, unfolded ticks_60_part5]
  note t = ticksScaled_add [OF t, of 400, unfolded ticks_60_part6]
  note t = ticksScaled_add [OF t, of 400, unfolded ticks_60_part7]
  note t = ticksScaled_add [OF t, of 400, unfolded ticks_60_part8]
  note t = ticksScaled_add [OF t, of 400, unfolded ticks_60_part9]
  from t show ?thesis by simp
qed

text \<open>
  With the duration \<open>60\<close> the decrement is the double next to \<open>1 / 36\<close>, just below it.
  After \<open>3600\<close> ticks from \<open>100\<close> the level is still \<open>476901 / 2 ^ 56\<close>, about
  \<open>6.6 * 10 ^ (- 12)\<close>. Tick number \<open>3601\<close> is the one that empties.
\<close>

lemma decrement_60: "fl (100 / fl (real_of_int 60 * 60)) = 2001599834386887 / 2 ^ 56"
proof -
  have "fl (real_of_int 60 * 60) = 3600"
    using decrement_bounds(1) [of 60] by simp
  moreover have "fl (1 / 36) = 2001599834386887 / 2 ^ 56"
  proof -
    have "fl (1 / 36) =
        of_int (roundTiesToEven (1 / 36 / 2 powr of_int (- 6 - 52))) * 2 powr of_int (- 6 - 52)"
      by (rule fl_binade) (simp_all add: powr_minus_divide)
    moreover have "(1::real) / 36 / 2 powr of_int (- 6 - 52) = of_int (2 ^ 56) / of_int 9"
      by (simp add: powr_minus_divide)
    moreover have "roundTiesToEven (of_int (2 ^ 56) / of_int 9) = 8006399337547548"
      by (subst roundTiesToEven_divide) simp_all
    ultimately show ?thesis by (simp add: powr_minus_divide)
  qed
  ultimately show ?thesis by simp
qed

lemma levels_60:
  "levelAfter (2001599834386887 / 2 ^ 56) 3600 100 = 476901 / 2 ^ 56"
  "0 < j \<and> j \<le> 3600 \<Longrightarrow> 0 < levelAfter (2001599834386887 / 2 ^ 56) j 100"
  "levelAfter (2001599834386887 / 2 ^ 56) 3601 100 \<le> 0"
  "fl (476901 / 2 ^ 56 - 2001599834386887 / 2 ^ 56) \<le> 0"
proof -
  have q: "real_of_int 2001599834386887 * 2 powr of_int (- 56) = 2001599834386887 / 2 ^ 56"
    and n: "real_of_int 7205759403792793600 * 2 powr of_int (- 56) = 100"
    and m: "real_of_int 476901 * 2 powr of_int (- 56) = 476901 / 2 ^ 56"
    by (simp_all add: powr_minus_divide)
  note l = ticksScaled_levels [of "- 56", OF _ ticks_60_scaled, unfolded q n m]
  from l show a: "levelAfter (2001599834386887 / 2 ^ 56) 3600 100 = 476901 / 2 ^ 56"
    by simp
  from l show "0 < j \<and> j \<le> 3600 \<Longrightarrow> 0 < levelAfter (2001599834386887 / 2 ^ 56) j 100"
    by simp
  have "round53 (476901 - 2001599834386887) = - 2001599833909986"
    by code_simp
  then have "fl (real_of_int (476901 - 2001599834386887) * 2 powr of_int (- 56)) =
      of_int (- 2001599833909986) * 2 powr of_int (- 56)"
    using fl_round53 [of "- 56" "476901 - 2001599834386887"] by simp
  moreover have "real_of_int (476901 - 2001599834386887) * 2 powr of_int (- 56) =
      476901 / 2 ^ 56 - 2001599834386887 / 2 ^ 56"
    by (simp add: powr_minus_divide)
  ultimately show last: "fl (476901 / 2 ^ 56 - 2001599834386887 / 2 ^ 56) \<le> 0"
    by (simp add: powr_minus_divide)
  have "levelAfter (2001599834386887 / 2 ^ 56) 3601 100 =
      fl (levelAfter (2001599834386887 / 2 ^ 56) 3600 100 - 2001599834386887 / 2 ^ 56)"
    using levelAfter_simps(2) [of "2001599834386887 / 2 ^ 56" 3600 100] by simp
  then show "levelAfter (2001599834386887 / 2 ^ 56) 3601 100 \<le> 0"
    using last by (simp only: a)
qed

lemma ticks_60:
  assumes "timerDuration s = 60" "currentWaterLevel s = 100"
    and "hydrationIntervalRef s = Some h" "intervals s = [(h, rendered s)]"
  shows "run conv (replicate 3600 (Tick h)) s =
           Some (Inr (s\<lparr>currentWaterLevel := 476901 / 2 ^ 56\<rparr>))"
    and "run conv (replicate 3601 (Tick h)) s =
           Some (waterEmpty (rendered s) (s\<lparr>currentWaterLevel := 476901 / 2 ^ 56\<rparr>))"
proof -
  have D: "timerDuration s \<noteq> 0" using assms(1) by simp
  have d: "2001599834386887 / 2 ^ 56 = fl (100 / fl (real_of_int (timerDuration s) * 60))"
    using decrement_60 by (simp add: assms(1))
  have p: "\<forall>j. 0 < j \<and> j \<le> 3600 \<longrightarrow>
      0 < levelAfter (2001599834386887 / 2 ^ 56) j (currentWaterLevel s)"
    using levels_60(2) by (simp add: assms(2))
  have e: "levelAfter (2001599834386887 / 2 ^ 56) (Suc 3600) (currentWaterLevel s) \<le> 0"
    using levels_60(3) by (simp add: assms(2))
  show "run conv (replicate 3600 (Tick h)) s =
      Some (Inr (s\<lparr>currentWaterLevel := 476901 / 2 ^ 56\<rparr>))"
    using run_ticks_positive [OF D assms(3,4) d p, of conv]
    by (simp only: assms(2) levels_60(1))
  have "run conv (replicate (Suc 3600) (Tick h)) s =
      Some (waterEmpty (rendered s)
        (s\<lparr>currentWaterLevel :=
             levelAfter (2001599834386887 / 2 ^ 56) 3600 (currentWaterLevel s)\<rparr>))"
    by (rule run_ticks_empty [OF D assms(3,4) d p e])
  moreover have "Suc 3600 = 3601" by simp
  ultimately show "run conv (replicate 3601 (Tick h)) s =
      Some (waterEmpty (rendered s) (s\<lparr>currentWaterLevel := 476901 / 2 ^ 56\<rparr>))"
    by (simp only: assms(2) levels_60(1))
qed

subsection \<open>One tick of the depletion driver\<close>

text \<open>
  What one call of the callback does, for a captured duration \<open>D\<close> other than \<open>0\<close>. The
  decrement \<open>d\<close> is the quotient \<open>100 / (D * 60)\<close> as a double. While the rounded
  difference is positive it is the new level and nothing else changes. When it is \<open>\<le> 0\<close>
  and the reminder dispatcher returns, the level is \<open>0\<close>, the interval in the ref is
  cancelled, the ref is \<open>null\<close>, the dispatcher has run once and the message box shows
  "Time to drink water!". When it is \<open>\<le> 0\<close>, the browser channel is on and the browser
  has no \<open>Notification\<close>, the call throws.
\<close>

lemma decrementWaterLevel_cases:
  assumes "cDuration c \<noteq> 0" "d = fl (100 / fl (real_of_int (cDuration c) * 60))"
  shows "(0 < fl (currentWaterLevel s - d) \<longrightarrow>
            decrementWaterLevel c s =
              Inr (s\<lparr>currentWaterLevel := fl (currentWaterLevel s - d)\<rparr>)) \<and>
         (fl (currentWaterLevel s - d) \<le> 0 \<and>
          (notificationPermission s \<noteq> None \<or> \<not> browser (cReminders c)) \<longrightarrow>
            (\<exists>s'. decrementWaterLevel c s = Inr s' \<and>
               currentWaterLevel s' = 0 \<and>
               hydrationIntervalRef s' = None \<and>
               intervals s' =
                 filter (\<lambda>p. Some (fst p) \<noteq> hydrationIntervalRef s) (intervals s) \<and>
               triggerReminderCalls s' = Suc (triggerReminderCalls s) \<and>
               notificationsSent s' = notificationsSent s +
                 (if browser (cReminders c) \<and> notificationPermission s = Some Granted
                  then 1 else 0) \<and>
               soundsPlayed s' = soundsPlayed s + (if sound (cReminders c) then 1 else 0) \<and>
               visualFlashes s' = visualFlashes s + (if visual (cReminders c) then 1 else 0) \<and>
               messageBox s' = \<lparr>message = ''Time to drink water!'', visible = True\<rparr>)) \<and>
         (fl (currentWaterLevel s - d) \<le> 0 \<and>
          notificationPermission s = None \<and> browser (cReminders c) \<longrightarrow>
            decrementWaterLevel c s = Inl ReferenceError)"
proof (intro conjI impI)
  assume "0 < fl (currentWaterLevel s - d)"
  then show "decrementWaterLevel c s =
      Inr (s\<lparr>currentWaterLevel := fl (currentWaterLevel s - d)\<rparr>)"
    using decrementWaterLevel_unfold [OF assms, of s] by simp
next
  assume a: "fl (currentWaterLevel s - d) \<le> 0 \<and>
    (notificationPermission s \<noteq> None \<or> \<not> browser (cReminders c))"
  then obtain t where t: "waterEmpty c s = Inr t"
    using waterEmpty_returns [of s c] by blast
  have "decrementWaterLevel c s = Inr t"
    using decrementWaterLevel_unfold [OF assms, of s] a t by simp
  then show "\<exists>s'. decrementWaterLevel c s = Inr s' \<and>
               currentWaterLevel s' = 0 \<and>
               hydrationIntervalRef s' = None \<and>
               intervals s' =
                 filter (\<lambda>p. Some (fst p) \<noteq> hydrationIntervalRef s) (intervals s) \<and>
               triggerReminderCalls s' = Suc (triggerReminderCalls s) \<and>
               notificationsSent s' = notificationsSent s +
                 (if browser (cReminders c) \<and> notificationPermission s = Some Granted
                  then 1 else 0) \<and>
               soundsPlayed s' = soundsPlayed s + (if sound (cReminders c) then 1 else 0) \<and>
               visualFlashes s' = visualFlashes s + (if visual (cReminders c) then 1 else 0) \<and>
               messageBox s' = \<lparr>message = ''Time to drink water!'', visible = True\<rparr>"
    using waterEmpty_fields [OF t] by (intro exI [of _ t]) simp
next
  assume a: "fl (currentWaterLevel s - d) \<le> 0 \<and>
    notificationPermission s = None \<and> browser (cReminders c)"
  then have "waterEmpty c s = Inl ReferenceError"
    by (simp only: waterEmpty_throws)
  then show "decrementWaterLevel c s = Inl ReferenceError"
    using decrementWaterLevel_unfold [OF assms, of s] a by simp
qed

text \<open>
  For a duration the slider can deliver and a level between \<open>0\<close> and \<open>100\<close>, the new level
  differs from \<open>level - 100 / (D * 60)\<close> by less than \<open>2 ^ (- 46)\<close> and is below the old one.
\<close>

lemma decrement_nearly_exact:
  assumes "30 \<le> D" "D \<le> 240" "0 \<le> x" "x \<le> 100"
    and "d = fl (100 / fl (real_of_int D * 60))"
  shows "\<bar>fl (x - d) - (x - 100 / real_of_int (D * 60))\<bar> < 1 / 2 ^ 46"
    and "fl (x - d) < x"
proof -
  have d: "1 / 256 \<le> d" "d \<le> 1 / 16" "\<bar>d - 100 / real_of_int (D * 60)\<bar> \<le> 1 / 2 ^ 58"
    unfolding assms(5) using assms(1,2) by (rule decrement_bounds)+
  have "\<bar>fl (x - d) - (x - d)\<bar> \<le> 1 / 2 ^ 47"
    using assms(3,4) d(1,2) by (intro tick_level(1)) simp_all
  moreover have "(1::real) / 2 ^ 47 + 1 / 2 ^ 58 < 1 / 2 ^ 46" by simp
  ultimately show "\<bar>fl (x - d) - (x - 100 / real_of_int (D * 60))\<bar> < 1 / 2 ^ 46"
    using d(3) by linarith
  show "fl (x - d) < x"
    using assms(3,4) d(1,2) by (intro tick_level(2)) simp_all
qed

text \<open>
  C1. The claim is that a tick whose result is \<open>\<le> 0\<close> sets the level to \<open>0\<close>, cancels
  the interval and signals "empty" by the reminders and the message "Time to drink
  water!". The code does so except in a browser without \<open>Notification\<close>: there, ticking
  the browser checkbox only shows "This browser does not support desktop notifications."
  and leaves the channel on, and the tick that reaches zero then throws a
  \<open>ReferenceError\<close> in \<open>sendBrowserNotification\<close>, before the message and before the
  level is set. From the mounted component with the checkbox ticked, \<open>3600\<close> ticks leave
  the level \<open>476901 / 2 ^ 56\<close>, and tick number \<open>3601\<close> is the one that throws.
\<close>

theorem tick_without_Notification:
  "reminderSettings (handleReminderChange ReminderBrowser True (mounted None)) =
     \<lparr>browser = True, sound = False, visual = False\<rparr> \<and>
   messageBox (handleReminderChange ReminderBrowser True (mounted None)) =
     \<lparr>message = ''This browser does not support desktop notifications.'', visible = True\<rparr> \<and>
   decrementWaterLevel
     \<lparr>cDuration = 60, cReminders = \<lparr>browser = True, sound = False, visual = False\<rparr>\<rparr>
     ((mounted None)\<lparr>currentWaterLevel := 476901 / 2 ^ 56\<rparr>) = Inl ReferenceError \<and>
   run (\<lambda>v. Inr False) (ReminderChange ReminderBrowser True # replicate 3600 (Tick 2))
     (mounted None) =
     Some (Inr ((timerEffect (handleReminderChange ReminderBrowser True (mounted None)))
       \<lparr>currentWaterLevel := 476901 / 2 ^ 56\<rparr>)) \<and>
   run (\<lambda>v. Inr False) (ReminderChange ReminderBrowser True # replicate 3601 (Tick 2))
     (mounted None) =
     Some (Inl ReferenceError)"
proof -
  let ?s = "timerEffect (handleReminderChange ReminderBrowser True (mounted None))"
  let ?c = "\<lparr>cDuration = 60, cReminders = \<lparr>browser = True, sound = False, visual = False\<rparr>\<rparr>"
  have hrc: "reminderSettings (handleReminderChange ReminderBrowser True (mounted None)) =
       \<lparr>browser = True, sound = False, visual = False\<rparr>"
    "messageBox (handleReminderChange ReminderBrowser True (mounted None)) =
       \<lparr>message = ''This browser does not support desktop notifications.'', visible = True\<rparr>"
    by (simp_all add: handleReminderChange_def requestNotificationPermission_def showMessage_def
        mounted_simps Let_def)
  have fields: "timerDuration ?s = 60" "currentWaterLevel ?s = 100"
    "hydrationIntervalRef ?s = Some 2" "intervals ?s = [(2, rendered ?s)]"
    "notificationPermission ?s = None" "browser (reminderSettings ?s)"
    by (simp_all add: handleReminderChange_def requestNotificationPermission_def
        timer_defs mounted_simps Let_def)
  have "waterEmpty (rendered ?s) (?s\<lparr>currentWaterLevel := 476901 / 2 ^ 56\<rparr>) =
      Inl ReferenceError"
    using fields(5,6) by (simp only: waterEmpty_throws) (simp add: rendered_def)
  then have ticks: "run (\<lambda>v. Inr False) (replicate 3601 (Tick 2)) ?s = Some (Inl ReferenceError)"
    by (simp only: ticks_60(2) [OF fields(1-4)])
  have st: "step (\<lambda>v. Inr False) (ReminderChange ReminderBrowser True) (mounted None) =
      Some (Inr ?s)"
    by (simp add: step_def)
  have r0: "run (\<lambda>v. Inr False) (ReminderChange ReminderBrowser True # replicate 3600 (Tick 2))
      (mounted None) = Some (Inr (?s\<lparr>currentWaterLevel := 476901 / 2 ^ 56\<rparr>))"
    using ticks_60(1) [OF fields(1-4), of "\<lambda>v. Inr False"] st by simp
  have r: "run (\<lambda>v. Inr False) (ReminderChange ReminderBrowser True # replicate 3601 (Tick 2))
      (mounted None) = Some (Inl ReferenceError)"
    using ticks st by simp
  have c0: "cDuration ?c \<noteq> 0" by simp
  have dq: "2001599834386887 / 2 ^ 56 = fl (100 / fl (real_of_int (cDuration ?c) * 60))"
    using decrement_60 by simp
  have lvl: "currentWaterLevel ((mounted None)\<lparr>currentWaterLevel := 476901 / 2 ^ 56\<rparr>) =
      476901 / 2 ^ 56"
    by simp
  have "decrementWaterLevel ?c ((mounted None)\<lparr>currentWaterLevel := 476901 / 2 ^ 56\<rparr>) =
      waterEmpty ?c ((mounted None)\<lparr>currentWaterLevel := 476901 / 2 ^ 56\<rparr>)"
    using levels_60(4)
    by (simp only: decrementWaterLevel_unfold [OF c0 dq] lvl if_True)
  moreover have "waterEmpty ?c ((mounted None)\<lparr>currentWaterLevel := 476901 / 2 ^ 56\<rparr>) =
      Inl ReferenceError"
    by (simp only: waterEmpty_throws) (simp add: mounted_simps)
  ultimately have d: "decrementWaterLevel ?c
      ((mounted None)\<lparr>currentWaterLevel := 476901 / 2 ^ 56\<rparr>) = Inl ReferenceError"
    by simp
  show ?thesis using hrc d r0 r by (intro conjI)
qed

subsection \<open>The level stays a percentage\<close>

text \<open>
  The level starts at \<open>100\<close>, and in every state the component can reach it is between
  \<open>0\<close> and \<open>100\<close>. A tick never makes it negative and always lowers it (unless it is \<open>0\<close>
  already): the new level is the rounded difference of the old one and the decrement, or
  \<open>0\<close>. When a tick brings it to \<open>0\<close> no interval is live, the ref is \<open>null\<close>, no tick
  can happen, and none can until an event in which \<open>startHydrationTimer\<close> runs.
\<close>

lemma level_in_range:
  assumes "run conv es (mounted perm) = Some (Inr s)"
    and "d = fl (100 / fl (real_of_int (timerDuration s) * 60))"
  shows "currentWaterLevel (mounted perm) = 100 \<and>
         0 \<le> currentWaterLevel s \<and> currentWaterLevel s \<le> 100 \<and>
         (\<forall>h s'. step conv (Tick h) s = Some (Inr s') \<longrightarrow>
            0 \<le> currentWaterLevel s' \<and>
            (currentWaterLevel s' < currentWaterLevel s \<or> currentWaterLevel s = 0) \<and>
            (currentWaterLevel s' = fl (currentWaterLevel s - d) \<or> currentWaterLevel s' = 0) \<and>
            (currentWaterLevel s' = 0 \<longrightarrow>
               intervals s' = [] \<and> hydrationIntervalRef s' = None \<and>
               (\<forall>h'. step conv (Tick h') s' = None) \<and>
               (\<forall>e t. step conv e s' = Some (Inr t) \<and> \<not> startsTimer e \<longrightarrow> intervals t = [])))"
proof -
  have inv: "timerInv s" using assms(1) by (rule timerInv_reachable)
  then have range: "0 \<le> currentWaterLevel s" "currentWaterLevel s \<le> 100"
    and D: "30 \<le> timerDuration s" "timerDuration s \<le> 240"
    by (simp_all add: timerInv_def sliderValue_def)
  have d: "1 / 256 \<le> d" "d \<le> 1 / 16"
    unfolding assms(2) using D by (rule decrement_bounds)+
  have tick: "0 \<le> currentWaterLevel s' \<and>
      (currentWaterLevel s' < currentWaterLevel s \<or> currentWaterLevel s = 0) \<and>
      (currentWaterLevel s' = fl (currentWaterLevel s - d) \<or> currentWaterLevel s' = 0) \<and>
      (currentWaterLevel s' = 0 \<longrightarrow>
         intervals s' = [] \<and> hydrationIntervalRef s' = None \<and>
         (\<forall>h'. step conv (Tick h') s' = None) \<and>
         (\<forall>e t. step conv e s' = Some (Inr t) \<and> \<not> startsTimer e \<longrightarrow> intervals t = []))"
    if "step conv (Tick h) s = Some (Inr s')" for h s'
  proof (cases "fl (currentWaterLevel s - d) \<le> 0")
    case True
    with tick_reachable [OF inv that assms(2)] have s': "waterEmpty (rendered s) s = Inr s'"
      and live: "hydrationIntervalRef s = Some h" "intervals s = [(h, rendered s)]"
      by simp_all
    have stopped: "intervals s' = []" using live by (simp add: waterEmpty_fields [OF s'])
    then have "\<forall>e t. step conv e s' = Some (Inr t) \<and> \<not> startsTimer e \<longrightarrow> intervals t = []"
      using stopped_stays_stopped by blast
    moreover have "\<forall>h'. step conv (Tick h') s' = None"
      using stopped by (simp add: step_def)
    ultimately show ?thesis
      using range stopped by (simp add: waterEmpty_fields [OF s'] less_le)
  next
    case False
    with tick_reachable [OF inv that assms(2)]
    have s': "s' = s\<lparr>currentWaterLevel := fl (currentWaterLevel s - d)\<rparr>"
      by simp
    have "fl (currentWaterLevel s - d) < currentWaterLevel s"
      using range d by (intro tick_level(2)) simp_all
    with False show ?thesis by (simp add: s')
  qed
  show ?thesis
    using range tick by (simp add: mounted_simps)
qed

text \<open>
  The body runs empty at tick \<open>3601\<close> of the mounted component, whatever the browser.
\<close>

lemma mounted_emptied:
  "\<exists>t. run conv (replicate 3601 (Tick 1)) (mounted perm) = Some (Inr t) \<and>
     waterEmpty (rendered (mounted perm)) ((mounted perm)\<lparr>currentWaterLevel := 476901 / 2 ^ 56\<rparr>) =
       Inr t"
proof -
  have "notificationPermission ((mounted perm)\<lparr>currentWaterLevel := 476901 / 2 ^ 56\<rparr>) \<noteq> None \<or>
      \<not> browser (cReminders (rendered (mounted perm)))"
    by (simp add: rendered_def mounted_simps)
  then obtain t where t: "waterEmpty (rendered (mounted perm))
      ((mounted perm)\<lparr>currentWaterLevel := 476901 / 2 ^ 56\<rparr>) = Inr t"
    using waterEmpty_returns by blast
  have "run conv (replicate 3601 (Tick 1)) (mounted perm) =
      Some (waterEmpty (rendered (mounted perm))
        ((mounted perm)\<lparr>currentWaterLevel := 476901 / 2 ^ 56\<rparr>))"
    by (rule ticks_60(2)) (simp_all add: mounted_simps rendered_def)
  then have "run conv (replicate 3601 (Tick 1)) (mounted perm) = Some (Inr t)"
    by (simp only: t)
  with t show ?thesis by (intro exI [of _ t] conjI)
qed

lemma emptied_fields:
  assumes "waterEmpty (rendered (mounted perm))
      ((mounted perm)\<lparr>currentWaterLevel := 476901 / 2 ^ 56\<rparr>) = Inr t"
  shows "currentWaterLevel t = 0" "intervals t = []" "hydrationIntervalRef t = None"
    "triggerReminderCalls t = 1" "timerDuration t = 60" "lastHandle t = 1"
    "reminderSettings t = \<lparr>browser = False, sound = False, visual = False\<rparr>"
    "notificationPermission t = perm" "soundsPlayed t = 0"
  by (simp_all add: waterEmpty_fields [OF assms] mounted_simps rendered_def)

text \<open>A tick at the level \<open>0\<close> takes the emptying branch.\<close>

lemma step_Tick_at_zero:
  assumes "hydrationIntervalRef s = Some h" "intervals s = [(h, rendered s)]"
    and "30 \<le> timerDuration s" "timerDuration s \<le> 240" "currentWaterLevel s = 0"
  shows "step conv (Tick h) s = Some (waterEmpty (rendered s) s)"
proof -
  define d where "d = fl (100 / fl (real_of_int (timerDuration s) * 60))"
  have d: "1 / 256 \<le> d" "d \<le> 1 / 16"
    unfolding d_def using assms(3,4) by (rule decrement_bounds)+
  then have "fl (0 - d) \<le> 0" by (intro fl_nonpos) simp_all
  moreover have "timerDuration s \<noteq> 0" using assms(3) by simp
  ultimately show ?thesis
    using step_Tick_live [OF assms(1,2) _ d_def, of conv] by (simp add: assms(5))
qed

text \<open>
  C2. The claim is that the level stays in \<open>[0,100]\<close> and that, once it has reached \<open>0\<close>,
  the driver has stopped and no tick runs until an explicit restart. The range holds,
  and the emptying tick does cancel the interval. But the timer effect, which by its
  comment restarts the timer whenever the duration changes, also runs after each change
  of a reminder checkbox, since \<open>startHydrationTimer\<close> is made anew from the settings.
  From the mounted component: tick \<open>3601\<close> empties the body and cancels interval \<open>1\<close>, so
  that no tick can happen; ticking the checkbox "Sound" then starts interval \<open>2\<close> at the
  level \<open>0\<close>; and its first tick runs, plays the sound and shows "Time to drink water!"
  a second time.
\<close>

theorem checkbox_restarts_stopped_driver:
  "\<exists>s1 s2 s3.
     run (\<lambda>v. Inr False) (replicate 3601 (Tick 1)) (mounted (Some Default)) = Some (Inr s1) \<and>
     currentWaterLevel s1 = 0 \<and> intervals s1 = [] \<and> hydrationIntervalRef s1 = None \<and>
     triggerReminderCalls s1 = 1 \<and>
     (\<forall>h. step (\<lambda>v. Inr False) (Tick h) s1 = None) \<and>
     step (\<lambda>v. Inr False) (ReminderChange ReminderSound True) s1 = Some (Inr s2) \<and>
     currentWaterLevel s2 = 0 \<and> intervals s2 = [(2, rendered s2)] \<and>
     hydrationIntervalRef s2 = Some 2 \<and>
     step (\<lambda>v. Inr False) (Tick 2) s2 = Some (Inr s3) \<and>
     currentWaterLevel s3 = 0 \<and> triggerReminderCalls s3 = 2 \<and> soundsPlayed s3 = 1 \<and>
     messageBox s3 = \<lparr>message = ''Time to drink water!'', visible = True\<rparr> \<and>
     run (\<lambda>v. Inr False)
       (replicate 3601 (Tick 1) @ [ReminderChange ReminderSound True, Tick 2])
       (mounted (Some Default)) = Some (Inr s3)"
proof -
  let ?conv = "\<lambda>v::jsval. Inr False :: jserror + bool"
  obtain s1 where r1: "run ?conv (replicate 3601 (Tick 1)) (mounted (Some Default)) = Some (Inr s1)"
    and e1: "waterEmpty (rendered (mounted (Some Default)))
      ((mounted (Some Default))\<lparr>currentWaterLevel := 476901 / 2 ^ 56\<rparr>) = Inr s1"
    using mounted_emptied [of ?conv "Some Default"] by blast
  note f1 = emptied_fields [OF e1]
  have none: "\<forall>h. step ?conv (Tick h) s1 = None"
    by (simp add: step_def f1)
  define s2 where "s2 = timerEffect (handleReminderChange ReminderSound True s1)"
  have st2: "step ?conv (ReminderChange ReminderSound True) s1 = Some (Inr s2)"
    by (simp add: step_def s2_def)
  have f2: "currentWaterLevel s2 = 0" "intervals s2 = [(2, rendered s2)]"
    "hydrationIntervalRef s2 = Some 2" "timerDuration s2 = 60"
    "reminderSettings s2 = \<lparr>browser = False, sound = True, visual = False\<rparr>"
    "triggerReminderCalls s2 = 1" "soundsPlayed s2 = 0"
    "notificationPermission s2 = Some Default"
    by (simp_all add: s2_def handleReminderChange_def timer_defs f1 Let_def)
  have tick: "step ?conv (Tick 2) s2 = Some (waterEmpty (rendered s2) s2)"
    by (rule step_Tick_at_zero) (simp_all add: f2)
  have "notificationPermission s2 \<noteq> None \<or> \<not> browser (cReminders (rendered s2))"
    by (simp add: f2)
  then obtain s3 where e3: "waterEmpty (rendered s2) s2 = Inr s3"
    using waterEmpty_returns by blast
  have st3: "step ?conv (Tick 2) s2 = Some (Inr s3)"
    using tick by (simp only: e3)
  have f3: "currentWaterLevel s3 = 0" "triggerReminderCalls s3 = 2" "soundsPlayed s3 = 1"
    "messageBox s3 = \<lparr>message = ''Time to drink water!'', visible = True\<rparr>"
    by (simp_all add: waterEmpty_fields [OF e3] f2 rendered_def)
  have "run ?conv [ReminderChange ReminderSound True, Tick 2] s1 = Some (Inr s3)"
    by (simp add: st2 st3)
  then have all: "run ?conv
      (replicate 3601 (Tick 1) @ [ReminderChange ReminderSound True, Tick 2])
      (mounted (Some Default)) = Some (Inr s3)"
    by (simp only: run_append [OF r1])
  show ?thesis
    by (intro exI [of _ s1] exI [of _ s2] exI [of _ s3] conjI)
       (rule r1 f1(1-4) none st2 f2(1-3) st3 f3 all)+
qed

subsection \<open>Depletion over the configured duration\<close>

text \<open>
  Where the reminder dispatcher returns (the browser has \<open>Notification\<close>, or the browser
  channel is off), the level is \<open>0\<close> and the driver has stopped after \<open>D * 60\<close> ticks or
  after one more.
\<close>

lemma depletion_reaches_zero:
  assumes "30 \<le> D" "D \<le> 240"
    and "timerDuration s = D" "currentWaterLevel s = 100"
    and "hydrationIntervalRef s = Some h" "intervals s = [(h, rendered s)]"
    and "notificationPermission s \<noteq> None \<or> \<not> browser (reminderSettings s)"
    and "N = nat (D * 60)"
  shows "\<exists>n t. (n = N \<or> n = Suc N) \<and>
           run conv (replicate n (Tick h)) s = Some (Inr t) \<and> currentWaterLevel t = 0 \<and>
           intervals t = [] \<and> hydrationIntervalRef t = None \<and>
           (\<forall>h'. step conv (Tick h') t = None)"
proof -
  define d where "d = fl (100 / fl (real_of_int D * 60))"
  from depletion_ticks [OF assms(1-6) d_def assms(8), of conv]
  obtain n where n: "n = N \<or> n = Suc N"
    and r: "run conv (replicate n (Tick h)) s =
      Some (waterEmpty (rendered s) (s\<lparr>currentWaterLevel := levelAfter d (n - 1) 100\<rparr>))"
    by blast
  let ?last = "s\<lparr>currentWaterLevel := levelAfter d (n - 1) 100\<rparr>"
  have "notificationPermission ?last \<noteq> None \<or> \<not> browser (cReminders (rendered s))"
    using assms(7) by (simp add: rendered_def)
  then obtain t where t: "waterEmpty (rendered s) ?last = Inr t"
    using waterEmpty_returns by blast
  have run: "run conv (replicate n (Tick h)) s = Some (Inr t)"
    using r by (simp only: t)
  have f: "currentWaterLevel t = 0" "intervals t = []" "hydrationIntervalRef t = None"
    using assms(5,6) by (simp_all add: waterEmpty_fields [OF t])
  then have none: "\<forall>h'. step conv (Tick h') t = None"
    by (simp add: step_def)
  show ?thesis
    by (intro exI [of _ n] exI [of _ t] conjI) (rule n run f none)+
qed

text \<open>
  C3. The claim is that for every \<open>D\<close> in \<open>[30,240]\<close>, from the level \<open>100\<close> and with ticks
  only, the level falls strictly, is never negative and reaches exactly \<open>0\<close> after
  \<open>D * 60\<close> ticks, within one tick's tolerance. In doubles the tick that takes the
  emptying branch is number \<open>D * 60\<close> or \<open>D * 60 + 1\<close> (for \<open>D = 60\<close> it is \<open>3601\<close>), which
  the tolerance covers, and the levels before it fall and are positive. But in a browser
  without \<open>Notification\<close> and with the browser channel on the level never reaches \<open>0\<close>:
  that tick throws the \<open>ReferenceError\<close> of \<open>sendBrowserNotification\<close> before the level
  is set.
\<close>

theorem depletion_without_Notification:
  assumes "30 \<le> D" "D \<le> 240"
    and "timerDuration s = D" "currentWaterLevel s = 100"
    and "hydrationIntervalRef s = Some h" "intervals s = [(h, rendered s)]"
    and "browser (reminderSettings s)" "notificationPermission s = None"
    and "d = fl (100 / fl (real_of_int D * 60))" "N = nat (D * 60)"
  shows "\<exists>n. (n = N \<or> n = Suc N) \<and>
           (\<forall>k<n. run conv (replicate k (Tick h)) s =
                     Some (Inr (s\<lparr>currentWaterLevel := levelAfter d k 100\<rparr>)) \<and>
                   0 < levelAfter d k 100 \<and>
                   (0 < k \<longrightarrow> levelAfter d k 100 < levelAfter d (k - 1) 100)) \<and>
           run conv (replicate n (Tick h)) s = Some (Inl ReferenceError)"
proof -
  from depletion_ticks [OF assms(1-6,9,10), of conv]
  obtain n where n: "n = N \<or> n = Suc N"
    and before: "\<forall>k<n. run conv (replicate k (Tick h)) s =
                     Some (Inr (s\<lparr>currentWaterLevel := levelAfter d k 100\<rparr>)) \<and>
                   0 < levelAfter d k 100 \<and>
                   (0 < k \<longrightarrow> levelAfter d k 100 < levelAfter d (k - 1) 100)"
    and r: "run conv (replicate n (Tick h)) s =
      Some (waterEmpty (rendered s) (s\<lparr>currentWaterLevel := levelAfter d (n - 1) 100\<rparr>))"
    by blast
  have "waterEmpty (rendered s) (s\<lparr>currentWaterLevel := levelAfter d (n - 1) 100\<rparr>) =
      Inl ReferenceError"
    using assms(7,8) by (simp only: waterEmpty_throws) (simp add: rendered_def)
  then have "run conv (replicate n (Tick h)) s = Some (Inl ReferenceError)"
    using r by simp
  with n before show ?thesis by (intro exI [of _ n] conjI)
qed

theorem depletion_without_Notification_witness:
  "\<exists>n. (n = 3600 \<or> n = 3601) \<and>
     run (\<lambda>v. Inr False) (replicate n (Tick 2))
       (timerEffect (handleReminderChange ReminderBrowser True (mounted None))) =
       Some (Inl ReferenceError)"
proof -
  let ?s = "timerEffect (handleReminderChange ReminderBrowser True (mounted None))"
  have fields: "timerDuration ?s = 60" "currentWaterLevel ?s = 100"
    "hydrationIntervalRef ?s = Some 2" "intervals ?s = [(2, rendered ?s)]"
    "browser (reminderSettings ?s)" "notificationPermission ?s = None"
    by (simp_all add: handleReminderChange_def requestNotificationPermission_def
        timer_defs mounted_simps Let_def)
  have "(30::int) \<le> 60" "(60::int) \<le> 240" by simp_all
  from depletion_without_Notification [OF this fields refl refl, of "\<lambda>v. Inr False"]
  obtain n where n: "n = nat (60 * 60) \<or> n = Suc (nat (60 * 60))"
    and r: "run (\<lambda>v. Inr False) (replicate n (Tick 2)) ?s = Some (Inl ReferenceError)"
    by blast
  from n have "n = 3600 \<or> n = 3601" by simp
  with r show ?thesis by (intro exI [of _ n] conjI)
qed

subsection \<open>Fill colour\<close>

text \<open>
  C4. The fill colour depends on the level alone, in the 2D view and in the 3D model:
  below \<open>30\<close> it is \<open>#ef4444\<close>, from \<open>30\<close> to below \<open>60\<close> it is \<open>#f97316\<close>, from \<open>60\<close> on
  it is \<open>#60a5fa\<close>; so \<open>29.9\<close> is alert, \<open>30\<close> warning, \<open>59.9\<close> warning and \<open>60\<close> normal.
\<close>

theorem fill_color_thresholds:
  "(level < 30 \<longrightarrow>
      backgroundColor (updateWaterLevelVisual level) = ''#ef4444'' \<and>
      Model_color level = ''#ef4444'') \<and>
   (30 \<le> level \<and> level < 60 \<longrightarrow>
      backgroundColor (updateWaterLevelVisual level) = ''#f97316'' \<and>
      Model_color level = ''#f97316'') \<and>
   (60 \<le> level \<longrightarrow>
      backgroundColor (updateWaterLevelVisual level) = ''#60a5fa'' \<and>
      Model_color level = ''#60a5fa'') \<and>
   backgroundColor (updateWaterLevelVisual (299 / 10)) = ''#ef4444'' \<and>
   Model_color (299 / 10) = ''#ef4444'' \<and>
   backgroundColor (updateWaterLevelVisual 30) = ''#f97316'' \<and>
   Model_color 30 = ''#f97316'' \<and>
   backgroundColor (updateWaterLevelVisual (599 / 10)) = ''#f97316'' \<and>
   Model_color (599 / 10) = ''#f97316'' \<and>
   backgroundColor (updateWaterLevelVisual 60) = ''#60a5fa'' \<and>
   Model_color 60 = ''#60a5fa''"
  by (simp add: updateWaterLevelVisual_def Model_color_def)

theorem fill_color_thresholds_witness:
  "backgroundColor (updateWaterLevelVisual 10) = ''#ef4444'' \<and> Model_color 10 = ''#ef4444'' \<and>
   backgroundColor (updateWaterLevelVisual 45) = ''#f97316'' \<and> Model_color 45 = ''#f97316'' \<and>
   backgroundColor (updateWaterLevelVisual 100) = ''#60a5fa'' \<and> Model_color 100 = ''#60a5fa''"
  using fill_color_thresholds [of 10] fill_color_thresholds [of 45] fill_color_thresholds [of 100]
  by simp

subsection \<open>Reset all\<close>

text \<open>
  C5. Whatever the state before, after the click on "Reset All" (the handler and the
  render that follows) the level is \<open>100\<close>, the duration \<open>60\<close>, the body type
  \<open>generic\<close>, the three reminder channels are off and the tip is the empty string.
\<close>

theorem reset_all_defaults:
  "step conv ResetAll s = Some (Inr (timerEffect (resetAll (rendered s) s))) \<and>
   currentWaterLevel (timerEffect (resetAll (rendered s) s)) = 100 \<and>
   timerDuration (timerEffect (resetAll (rendered s) s)) = 60 \<and>
   selectedBodyType (timerEffect (resetAll (rendered s) s)) = ''generic'' \<and>
   reminderSettings (timerEffect (resetAll (rendered s) s)) =
     \<lparr>browser = False, sound = False, visual = False\<rparr> \<and>
   hydrationTip (timerEffect (resetAll (rendered s) s)) = Str ''''"
  by (cases "hydrationIntervalRef s") (simp_all add: step_def resetAll_def timer_defs Let_def)

subsection \<open>The duration at the input boundary\<close>

text \<open>
  C7. A duration \<open>\<le> 0\<close> never drives the timer: it is kept out at the input, the
  slider, whose values lie between \<open>30\<close> and \<open>240\<close> (the handler itself stores the number
  it is given). A change of the duration to \<open>v \<le> 0\<close> cannot happen; in every state the
  component can reach the duration is between \<open>30\<close> and \<open>240\<close>, the callback of the live
  interval has that duration, and the decrement it computes from \<open>100 / (D * 60)\<close> is
  positive.
\<close>

theorem duration_positive_by_slider:
  assumes "run conv es (mounted perm) = Some (Inr s)"
  shows "handleTimerChange v t = t\<lparr>timerDuration := v\<rparr> \<and>
         (sliderValue v \<longrightarrow> 30 \<le> v \<and> v \<le> 240) \<and>
         (\<forall>r. step conv (TimerChange v) s = Some r \<longrightarrow>
            sliderValue v \<and> r = Inr (timerEffect (handleTimerChange v s)) \<and>
            timerDuration (timerEffect (handleTimerChange v s)) = v) \<and>
         (v \<le> 0 \<longrightarrow> step conv (TimerChange v) s = None) \<and>
         30 \<le> timerDuration s \<and> timerDuration s \<le> 240 \<and>
         (\<forall>h c. map_of (intervals s) h = Some c \<longrightarrow>
            cDuration c = timerDuration s \<and> 0 < 100 / real_of_int (cDuration c * 60) \<and>
            0 < fl (100 / fl (real_of_int (cDuration c) * 60)))"
proof -
  have inv: "timerInv s" using assms by (rule timerInv_reachable)
  then have D: "30 \<le> timerDuration s" "timerDuration s \<le> 240"
    by (simp_all add: timerInv_def sliderValue_def)
  have "1 / 256 \<le> fl (100 / fl (real_of_int (timerDuration s) * 60))"
    using D by (rule decrement_bounds)
  then have dpos: "0 < fl (100 / fl (real_of_int (timerDuration s) * 60))" by simp
  have live: "cDuration c = timerDuration s \<and> 0 < 100 / real_of_int (cDuration c * 60) \<and>
      0 < fl (100 / fl (real_of_int (cDuration c) * 60))"
    if "map_of (intervals s) h = Some c" for h c
  proof -
    from inv that have "c = rendered s"
      by (cases "hydrationIntervalRef s") (auto simp: timerInv_def split: if_splits)
    with D dpos show ?thesis by (simp add: rendered_def)
  qed
  have td: "timerDuration (timerEffect (handleTimerChange v s)) = v"
    by (cases "hydrationIntervalRef s") (simp_all add: handleTimerChange_def timer_defs)
  have change: "sliderValue v \<and> r = Inr (timerEffect (handleTimerChange v s))"
    if "step conv (TimerChange v) s = Some r" for r
    using that by (simp add: step_def split: if_splits)
  have refused: "step conv (TimerChange v) s = None" if "v \<le> 0"
    using that by (simp add: step_def sliderValue_def)
  show ?thesis
    using D dpos live change td refused by (simp add: handleTimerChange_def sliderValue_def)
qed

theorem duration_positive_by_slider_witness:
  "run (\<lambda>v. Inr False) [TimerChange 45] (mounted (Some Default)) =
     Some (Inr (timerEffect (handleTimerChange 45 (mounted (Some Default))))) \<and>
   30 \<le> timerDuration (timerEffect (handleTimerChange 45 (mounted (Some Default)))) \<and>
   timerDuration (timerEffect (handleTimerChange 45 (mounted (Some Default)))) \<le> 240 \<and>
   sliderValue 45 \<and>
   step (\<lambda>v. Inr False) (TimerChange (- 5))
     (timerEffect (handleTimerChange 45 (mounted (Some Default)))) = None"
proof -
  have r: "run (\<lambda>v. Inr False) [TimerChange 45] (mounted (Some Default)) =
     Some (Inr (timerEffect (handleTimerChange 45 (mounted (Some Default)))))"
    by (simp add: step_def sliderValue_def mounted_simps)
  from duration_positive_by_slider [OF r, of 45]
  have "30 \<le> timerDuration (timerEffect (handleTimerChange 45 (mounted (Some Default)))) \<and>
      timerDuration (timerEffect (handleTimerChange 45 (mounted (Some Default)))) \<le> 240"
    by blast
  moreover from duration_positive_by_slider [OF r, of "- 5"]
  have "step (\<lambda>v. Inr False) (TimerChange (- 5))
     (timerEffect (handleTimerChange 45 (mounted (Some Default)))) = None"
    by simp
  moreover have "sliderValue 45" by (simp add: sliderValue_def)
  ultimately show ?thesis using r by blast
qed

subsection \<open>One live timer\<close>

text \<open>
  C9. In every state the component can reach at most one interval is live. A change of
  the duration first cancels the interval in the ref, leaving none, then starts one new
  interval under a fresh handle with the callback of the new render; the level is
  unchanged. "Drink Now" does the same and sets the level to \<open>100\<close>. "Reset All" starts
  one interval in the handler, and the render after it cancels that one and starts one
  again; the level is \<open>100\<close>.
\<close>

theorem one_live_timer:
  assumes "run conv es (mounted perm) = Some (Inr s)"
  shows "length (intervals s) \<le> 1 \<and>
         (\<forall>v r. step conv (TimerChange v) s = Some r \<longrightarrow>
            r = Inr (timerEffect (handleTimerChange v s)) \<and>
            intervals (timerEffectCleanup (handleTimerChange v s)) = [] \<and>
            intervals (timerEffect (handleTimerChange v s)) =
              [(Suc (lastHandle s), rendered (timerEffect (handleTimerChange v s)))] \<and>
            hydrationIntervalRef (timerEffect (handleTimerChange v s)) = Some (Suc (lastHandle s)) \<and>
            Suc (lastHandle s) \<notin> fst ` set (intervals s) \<and>
            timerDuration (timerEffect (handleTimerChange v s)) = v \<and>
            currentWaterLevel (timerEffect (handleTimerChange v s)) = currentWaterLevel s) \<and>
         step conv DrinkNow s = Some (Inr (resetHydration (rendered s) s)) \<and>
         intervals (case hydrationIntervalRef s of None \<Rightarrow> s | Some h \<Rightarrow> clearInterval h s) = [] \<and>
         intervals (resetHydration (rendered s) s) =
           [(Suc (lastHandle s), rendered (resetHydration (rendered s) s))] \<and>
         hydrationIntervalRef (resetHydration (rendered s) s) = Some (Suc (lastHandle s)) \<and>
         Suc (lastHandle s) \<notin> fst ` set (intervals s) \<and>
         currentWaterLevel (resetHydration (rendered s) s) = 100 \<and>
         step conv ResetAll s = Some (Inr (timerEffect (resetAll (rendered s) s))) \<and>
         length (intervals (resetAll (rendered s) s)) = 1 \<and>
         intervals (timerEffectCleanup (resetAll (rendered s) s)) = [] \<and>
         intervals (timerEffect (resetAll (rendered s) s)) =
           [(Suc (Suc (lastHandle s)), rendered (timerEffect (resetAll (rendered s) s)))] \<and>
         hydrationIntervalRef (timerEffect (resetAll (rendered s) s)) =
           Some (Suc (Suc (lastHandle s))) \<and>
         Suc (Suc (lastHandle s)) \<notin> fst ` set (intervals s) \<and>
         currentWaterLevel (timerEffect (resetAll (rendered s) s)) = 100"
proof -
  have inv: "timerInv s" using assms by (rule timerInv_reachable)
  then have own: "intervals s =
      (case hydrationIntervalRef s of None \<Rightarrow> [] | Some h \<Rightarrow> [(h, rendered s)])"
    and old: "\<forall>p \<in> set (intervals s). fst p \<le> lastHandle s"
    by (cases "hydrationIntervalRef s"; simp add: timerInv_def)+
  have one: "length (intervals s) \<le> 1"
    using own by (cases "hydrationIntervalRef s") simp_all
  have fresh: "Suc (lastHandle s) \<notin> fst ` set (intervals s)"
    "Suc (Suc (lastHandle s)) \<notin> fst ` set (intervals s)"
    using old by auto
  have cleared: "intervals (case hydrationIntervalRef s of None \<Rightarrow> s
      | Some h \<Rightarrow> clearInterval h s) = []"
    using own by (cases "hydrationIntervalRef s") (simp_all add: clearInterval_def)
  have change: "r = Inr (timerEffect (handleTimerChange v s))"
    if "step conv (TimerChange v) s = Some r" for v r
    using that by (simp add: step_def split: if_splits)
  have slider: "intervals (timerEffectCleanup (handleTimerChange v s)) = []"
    "intervals (timerEffect (handleTimerChange v s)) =
       [(Suc (lastHandle s), rendered (timerEffect (handleTimerChange v s)))]"
    "hydrationIntervalRef (timerEffect (handleTimerChange v s)) = Some (Suc (lastHandle s))"
    "timerDuration (timerEffect (handleTimerChange v s)) = v"
    "currentWaterLevel (timerEffect (handleTimerChange v s)) = currentWaterLevel s" for v
    using own
    by (cases "hydrationIntervalRef s"; simp add: handleTimerChange_def timer_defs)+
  have drink: "step conv DrinkNow s = Some (Inr (resetHydration (rendered s) s))"
    "intervals (resetHydration (rendered s) s) =
       [(Suc (lastHandle s), rendered (resetHydration (rendered s) s))]"
    "hydrationIntervalRef (resetHydration (rendered s) s) = Some (Suc (lastHandle s))"
    "currentWaterLevel (resetHydration (rendered s) s) = 100"
    using own
    by (cases "hydrationIntervalRef s"; simp add: step_def timer_defs)+
  have reset: "step conv ResetAll s = Some (Inr (timerEffect (resetAll (rendered s) s)))"
    "length (intervals (resetAll (rendered s) s)) = 1"
    "intervals (timerEffectCleanup (resetAll (rendered s) s)) = []"
    "intervals (timerEffect (resetAll (rendered s) s)) =
       [(Suc (Suc (lastHandle s)), rendered (timerEffect (resetAll (rendered s) s)))]"
    "hydrationIntervalRef (timerEffect (resetAll (rendered s) s)) = Some (Suc (Suc (lastHandle s)))"
    "currentWaterLevel (timerEffect (resetAll (rendered s) s)) = 100"
    using own
    by (cases "hydrationIntervalRef s"; simp add: step_def resetAll_def timer_defs Let_def)+
  show ?thesis
    by (intro conjI allI impI)
       (rule one fresh cleared slider drink reset | (rule change, assumption))+
qed

theorem one_live_timer_witness:
  "run (\<lambda>v. Inr False) [] (mounted (Some Default)) = Some (Inr (mounted (Some Default))) \<and>
   length (intervals (mounted (Some Default))) \<le> 1 \<and>
   step (\<lambda>v. Inr False) (TimerChange 45) (mounted (Some Default)) =
     Some (Inr (timerEffect (handleTimerChange 45 (mounted (Some Default))))) \<and>
   intervals (timerEffect (handleTimerChange 45 (mounted (Some Default)))) =
     [(2, rendered (timerEffect (handleTimerChange 45 (mounted (Some Default)))))] \<and>
   currentWaterLevel (timerEffect (handleTimerChange 45 (mounted (Some Default)))) = 100"
proof -
  have r: "run (\<lambda>v. Inr False) [] (mounted (Some Default)) = Some (Inr (mounted (Some Default)))"
    by simp
  have st: "step (\<lambda>v. Inr False) (TimerChange 45) (mounted (Some Default)) =
     Some (Inr (timerEffect (handleTimerChange 45 (mounted (Some Default)))))"
    by (simp add: step_def sliderValue_def mounted_simps)
  note all = one_live_timer [OF r]
  have len: "length (intervals (mounted (Some Default))) \<le> 1"
    using all by (rule conjunct1)
  note change = all [THEN conjunct2, THEN conjunct1, rule_format, OF st]
  have new: "intervals (timerEffect (handleTimerChange 45 (mounted (Some Default)))) =
      [(2, rendered (timerEffect (handleTimerChange 45 (mounted (Some Default)))))]"
    "currentWaterLevel (timerEffect (handleTimerChange 45 (mounted (Some Default)))) = 100"
    using change by (simp_all add: mounted_simps)
  show ?thesis
    by (intro conjI) (rule r len st new)+
qed

subsection \<open>The empty signal fires again\<close>

text \<open>
  A tick of a live interval in a reachable state whose level is already \<open>0\<close>: the
  rounded difference \<open>0 - d\<close> is \<open>\<le> 0\<close>, so the tick takes the emptying branch. Where the
  reminder dispatcher returns, it has run again, the message "Time to drink water!"
  shows again, the level is set to \<open>0\<close> again and the interval is cancelled. In a browser
  without \<open>Notification\<close> and with the browser channel on, the tick throws.
\<close>

lemma tick_at_zero:
  assumes "run conv es (mounted perm) = Some (Inr s)"
    and "currentWaterLevel s = 0" and "map_of (intervals s) h = Some c"
  shows "fl (0 - fl (100 / fl (real_of_int (timerDuration s) * 60))) \<le> 0"
    and "step conv (Tick h) s = Some (waterEmpty (rendered s) s)"
    and "notificationPermission s \<noteq> None \<or> \<not> browser (reminderSettings s) \<Longrightarrow>
         \<exists>s'. step conv (Tick h) s = Some (Inr s') \<and>
            currentWaterLevel s' = 0 \<and>
            triggerReminderCalls s' = Suc (triggerReminderCalls s) \<and>
            notificationsSent s' = notificationsSent s +
              (if browser (reminderSettings s) \<and> notificationPermission s = Some Granted
               then 1 else 0) \<and>
            soundsPlayed s' = soundsPlayed s + (if sound (reminderSettings s) then 1 else 0) \<and>
            visualFlashes s' = visualFlashes s + (if visual (reminderSettings s) then 1 else 0) \<and>
            messageBox s' = \<lparr>message = ''Time to drink water!'', visible = True\<rparr> \<and>
            intervals s' = [] \<and> hydrationIntervalRef s' = None"
    and "notificationPermission s = None \<and> browser (reminderSettings s) \<Longrightarrow>
         step conv (Tick h) s = Some (Inl ReferenceError)"
proof -
  define d where "d = fl (100 / fl (real_of_int (timerDuration s) * 60))"
  have inv: "timerInv s" using assms(1) by (rule timerInv_reachable)
  then have D: "30 \<le> timerDuration s" "timerDuration s \<le> 240"
    by (simp_all add: timerInv_def sliderValue_def)
  have "1 / 256 \<le> d" "d \<le> 1 / 16"
    unfolding d_def using D by (rule decrement_bounds)+
  then have neg: "fl (0 - d) \<le> 0" by (intro fl_nonpos) simp_all
  then show "fl (0 - fl (100 / fl (real_of_int (timerDuration s) * 60))) \<le> 0"
    by (simp only: d_def)
  obtain r where r: "step conv (Tick h) s = Some r"
    using assms(3) by (simp add: step_def)
  from tick_reachable [OF inv r d_def] neg assms(2)
  have r': "r = waterEmpty (rendered s) s"
    and live: "hydrationIntervalRef s = Some h" "intervals s = [(h, rendered s)]"
    by simp_all
  show tick: "step conv (Tick h) s = Some (waterEmpty (rendered s) s)"
    using r by (simp only: r')
  {
    assume "notificationPermission s \<noteq> None \<or> \<not> browser (reminderSettings s)"
    then have "notificationPermission s \<noteq> None \<or> \<not> browser (cReminders (rendered s))"
      by (simp add: rendered_def)
    then obtain t where t: "waterEmpty (rendered s) s = Inr t"
      using waterEmpty_returns by blast
    have "step conv (Tick h) s = Some (Inr t)" using tick by (simp only: t)
    moreover have "intervals t = []" using live by (simp add: waterEmpty_fields [OF t])
    ultimately show "\<exists>s'. step conv (Tick h) s = Some (Inr s') \<and>
            currentWaterLevel s' = 0 \<and>
            triggerReminderCalls s' = Suc (triggerReminderCalls s) \<and>
            notificationsSent s' = notificationsSent s +
              (if browser (reminderSettings s) \<and> notificationPermission s = Some Granted
               then 1 else 0) \<and>
            soundsPlayed s' = soundsPlayed s + (if sound (reminderSettings s) then 1 else 0) \<and>
            visualFlashes s' = visualFlashes s + (if visual (reminderSettings s) then 1 else 0) \<and>
            messageBox s' = \<lparr>message = ''Time to drink water!'', visible = True\<rparr> \<and>
            intervals s' = [] \<and> hydrationIntervalRef s' = None"
      by (intro exI [of _ t]) (simp add: waterEmpty_fields [OF t] rendered_def)
  }
  {
    assume "notificationPermission s = None \<and> browser (reminderSettings s)"
    then have "waterEmpty (rendered s) s = Inl ReferenceError"
      by (simp only: waterEmpty_throws) (simp add: rendered_def)
    then show "step conv (Tick h) s = Some (Inl ReferenceError)"
      using tick by simp
  }
qed

text \<open>
  C10. The claim is that every tick executed while the level is already \<open>0\<close> fires the
  reminders and the message "Time to drink water!" again and sets the level to \<open>0\<close>
  again. Such ticks do happen, and where the reminder dispatcher returns they do just
  that. In a browser without \<open>Notification\<close> they do not: after the body has run empty
  at tick \<open>3601\<close>, ticking the browser checkbox shows "This browser does not support
  desktop notifications.", leaves the channel on and starts interval \<open>2\<close> at the level
  \<open>0\<close>; the tick of that interval throws the \<open>ReferenceError\<close> of
  \<open>sendBrowserNotification\<close>, with no message and no new level.
\<close>

theorem empty_signal_throws:
  "\<exists>s1 s2.
     run (\<lambda>v. Inr False) (replicate 3601 (Tick 1)) (mounted None) = Some (Inr s1) \<and>
     currentWaterLevel s1 = 0 \<and> intervals s1 = [] \<and>
     step (\<lambda>v. Inr False) (ReminderChange ReminderBrowser True) s1 = Some (Inr s2) \<and>
     currentWaterLevel s2 = 0 \<and> intervals s2 = [(2, rendered s2)] \<and>
     browser (reminderSettings s2) \<and>
     messageBox s2 =
       \<lparr>message = ''This browser does not support desktop notifications.'', visible = True\<rparr> \<and>
     step (\<lambda>v. Inr False) (Tick 2) s2 = Some (Inl ReferenceError) \<and>
     run (\<lambda>v. Inr False)
       (replicate 3601 (Tick 1) @ [ReminderChange ReminderBrowser True, Tick 2])
       (mounted None) = Some (Inl ReferenceError)"
proof -
  let ?conv = "\<lambda>v::jsval. Inr False :: jserror + bool"
  obtain s1 where r1: "run ?conv (replicate 3601 (Tick 1)) (mounted None) = Some (Inr s1)"
    and e1: "waterEmpty (rendered (mounted None))
      ((mounted None)\<lparr>currentWaterLevel := 476901 / 2 ^ 56\<rparr>) = Inr s1"
    using mounted_emptied [of ?conv None] by blast
  note f1 = emptied_fields [OF e1]
  define s2 where "s2 = timerEffect (handleReminderChange ReminderBrowser True s1)"
  have st2: "step ?conv (ReminderChange ReminderBrowser True) s1 = Some (Inr s2)"
    by (simp add: step_def s2_def)
  have f2: "currentWaterLevel s2 = 0" "intervals s2 = [(2, rendered s2)]"
    "browser (reminderSettings s2)"
    "messageBox s2 =
       \<lparr>message = ''This browser does not support desktop notifications.'', visible = True\<rparr>"
    "hydrationIntervalRef s2 = Some 2" "timerDuration s2 = 60"
    "notificationPermission s2 = None"
    by (simp_all add: s2_def handleReminderChange_def requestNotificationPermission_def
        timer_defs f1 Let_def)
  have tick: "step ?conv (Tick 2) s2 = Some (waterEmpty (rendered s2) s2)"
    by (rule step_Tick_at_zero) (simp_all add: f2)
  have "waterEmpty (rendered s2) s2 = Inl ReferenceError"
    using f2(3,7) by (simp only: waterEmpty_throws) (simp add: rendered_def)
  then have st3: "step ?conv (Tick 2) s2 = Some (Inl ReferenceError)"
    using tick by simp
  have "run ?conv [ReminderChange ReminderBrowser True, Tick 2] s1 = Some (Inl ReferenceError)"
    by (simp add: st2 st3)
  then have all: "run ?conv
      (replicate 3601 (Tick 1) @ [ReminderChange ReminderBrowser True, Tick 2])
      (mounted None) = Some (Inl ReferenceError)"
    by (simp only: run_append [OF r1])
  show ?thesis
    by (intro exI [of _ s1] exI [of _ s2] conjI)
       (rule r1 f1(1,2) st2 f2(1-4) st3 all)+
qed

subsection \<open>Outcomes of a tip fetch\<close>

text \<open>
  C6 as stated does not hold for a malformed response: when the body parses and lacks
  the candidates (here the body \<open>{}\<close>), the tip becomes "Could not fetch a tip. Please
  try again." and no message is shown; the message box stays hidden.
\<close>

theorem tip_malformed_counterexample:
  "hydrationTip
     (getHydrationTipSettled (\<lambda>v. Inr False) (Resolved (Response True 200 (Some (Obj []))))
        (getHydrationTipStart (mounted (Some Default)))) =
     Str ''Could not fetch a tip. Please try again.'' \<and>
   \<not> visible (messageBox
     (getHydrationTipSettled (\<lambda>v. Inr False) (Resolved (Response True 200 (Some (Obj []))))
        (getHydrationTipStart (mounted (Some Default)))))"
  by (simp add: getHydrationTipSettled_def getHydrationTipStart_def tipTry_def tipGuard_def
      bindE_def mounted_simps)

text \<open>
  C6, amended. After every outcome the loading flag is off. When the fetch is rejected,
  the status is not ok, the body is not JSON or reading the parsed body throws, the tip
  is "Failed to get a tip. Network error or API issue." and the message "Failed to get a
  tip. Please check your connection." becomes visible. When the body parses and the
  check of its shape fails without throwing, the tip is "Could not fetch a tip. Please
  try again." and no message is surfaced: the message box and its timeouts are as before.
\<close>

theorem tip_fetch_outcomes:
  "isLoadingTip (getHydrationTipSettled conv f s) = False \<and>
   ((f = Rejected \<or>
     (\<exists>r. f = Resolved r \<and>
        (\<not> ok r \<or> json r = None \<or>
         (\<exists>result. json r = Some result \<and>
            (tipGuard conv result = Inl e \<or>
             tipGuard conv result = Inr True \<and> tipText result = Inl e))))) \<longrightarrow>
      hydrationTip (getHydrationTipSettled conv f s) =
        Str ''Failed to get a tip. Network error or API issue.'' \<and>
      messageBox (getHydrationTipSettled conv f s) =
        \<lparr>message = ''Failed to get a tip. Please check your connection.'', visible = True\<rparr>) \<and>
   ((\<exists>r result. f = Resolved r \<and> ok r \<and> json r = Some result \<and>
        tipGuard conv result = Inr False) \<longrightarrow>
      hydrationTip (getHydrationTipSettled conv f s) =
        Str ''Could not fetch a tip. Please try again.'' \<and>
      messageBox (getHydrationTipSettled conv f s) = messageBox s \<and>
      dismissTimeouts (getHydrationTipSettled conv f s) = dismissTimeouts s)"
  by (auto simp: getHydrationTipSettled_def tipTry_def bindE_def showMessage_def Let_def)

theorem tip_fetch_outcomes_witness:
  "isLoadingTip (getHydrationTipSettled (\<lambda>v. Inr False) Rejected
      (getHydrationTipStart (mounted (Some Default)))) = False \<and>
   hydrationTip (getHydrationTipSettled (\<lambda>v. Inr False) Rejected
      (getHydrationTipStart (mounted (Some Default)))) =
     Str ''Failed to get a tip. Network error or API issue.'' \<and>
   visible (messageBox (getHydrationTipSettled (\<lambda>v. Inr False) Rejected
      (getHydrationTipStart (mounted (Some Default))))) \<and>
   hydrationTip (getHydrationTipSettled (\<lambda>v. Inr False)
      (Resolved (Response True 200 (Some (Obj [(''candidates'', Arr [])]))))
      (getHydrationTipStart (mounted (Some Default)))) =
     Str ''Could not fetch a tip. Please try again.'' \<and>
   messageBox (getHydrationTipSettled (\<lambda>v. Inr False)
      (Resolved (Response True 200 (Some (Obj [(''candidates'', Arr [])]))))
      (getHydrationTipStart (mounted (Some Default)))) = \<lparr>message = '''', visible = False\<rparr>"
proof -
  have g: "tipGuard (\<lambda>v. Inr False) (Obj [(''candidates'', Arr [])]) = Inr False"
    by (simp add: tipGuard_def bindE_def)
  from tip_fetch_outcomes [of "\<lambda>v. Inr False" Rejected
      "getHydrationTipStart (mounted (Some Default))" TypeError]
    tip_fetch_outcomes [of "\<lambda>v. Inr False"
      "Resolved (Response True 200 (Some (Obj [(''candidates'', Arr [])])))"
      "getHydrationTipStart (mounted (Some Default))" TypeError] g
  show ?thesis
    by (simp add: getHydrationTipStart_def mounted_simps)
qed

subsection \<open>The notification channel and its permission\<close>

text \<open>
  C8 as stated does not hold when the permission is already denied: ticking the
  browser checkbox then requests nothing (no request is pending, so none can settle) and
  the channel stays on.
\<close>

theorem permission_denied_counterexample:
  "step (\<lambda>v. Inr False) (ReminderChange ReminderBrowser True) (mounted (Some Denied)) =
     Some (Inr (timerEffect (handleReminderChange ReminderBrowser True (mounted (Some Denied))))) \<and>
   permissionRequests
     (timerEffect (handleReminderChange ReminderBrowser True (mounted (Some Denied)))) = 0 \<and>
   browser (reminderSettings
     (timerEffect (handleReminderChange ReminderBrowser True (mounted (Some Denied))))) \<and>
   step (\<lambda>v. Inr False) (PermissionSettled Denied)
     (timerEffect (handleReminderChange ReminderBrowser True (mounted (Some Denied)))) = None"
  by (simp add: step_def handleReminderChange_def requestNotificationPermission_def
      timer_defs mounted_simps Let_def)

text \<open>
  C8, amended. In a browser that has \<open>Notification\<close>, ticking the browser checkbox turns
  the channel on. If the permission has not been asked for yet (\<open>default\<close>), one
  permission request is made; when a request settles with anything but \<open>granted\<close>, the
  channel is turned off and a message is shown, and when it settles with \<open>granted\<close> the
  settings stay. If the permission is already \<open>denied\<close> or \<open>granted\<close>, nothing is
  requested and only the setting changes.
\<close>

theorem permission_request_on_default:
  assumes "notificationPermission s = Some perm"
  shows "browser (reminderSettings (handleReminderChange ReminderBrowser True s)) \<and>
         (perm = Default \<longrightarrow>
            permissionRequests (handleReminderChange ReminderBrowser True s) =
              Suc (permissionRequests s)) \<and>
         (perm \<noteq> Default \<longrightarrow>
            handleReminderChange ReminderBrowser True s =
              s\<lparr>reminderSettings := (reminderSettings s)\<lparr>browser := True\<rparr>\<rparr>) \<and>
         (p \<noteq> Granted \<longrightarrow>
            \<not> browser (reminderSettings (permissionSettled p t)) \<and>
            visible (messageBox (permissionSettled p t))) \<and>
         reminderSettings (permissionSettled Granted t) = reminderSettings t"
  using assms
  by (cases perm)
     (simp_all add: handleReminderChange_def requestNotificationPermission_def
        permissionSettled_def showMessage_def Let_def)

theorem permission_request_on_default_witness:
  "browser (reminderSettings (handleReminderChange ReminderBrowser True (mounted (Some Default)))) \<and>
   permissionRequests (handleReminderChange ReminderBrowser True (mounted (Some Default))) = 1 \<and>
   \<not> browser (reminderSettings (permissionSettled Denied
        (handleReminderChange ReminderBrowser True (mounted (Some Default))))) \<and>
   handleReminderChange ReminderBrowser True (mounted (Some Granted)) =
     (mounted (Some Granted))\<lparr>reminderSettings := \<lparr>browser = True, sound = False, visual = False\<rparr>\<rparr>"
  using
    permission_request_on_default [of "mounted (Some Default)" Default Denied
      "handleReminderChange ReminderBrowser True (mounted (Some Default))"]
    permission_request_on_default [of "mounted (Some Granted)" Granted Denied
      "mounted (Some Granted)"]
  by (simp add: mounted_simps)


end
